(* ===== verification/Medusa_Prelude.thy ===== *)
theory Medusa_Prelude
  imports Main "HOL-Library.Word"
begin

text \<open>
  What every other theory of the development shares: the machine types of the program under
  the names the Go source gives them, the byte order of the machine it runs on (amd64,
  little-endian), a few facts on lists, and the two collections of rewrite rules the component
  proofs use: \<open>wire_simps\<close> (sizes and round trips of encoded values) and \<open>loop_simps\<close> (facts
  about the program's loops and channels).
\<close>

unbundle bit_operations_syntax

named_theorems wire_simps \<open>sizes and round trips of encoded values\<close>
named_theorems loop_simps \<open>facts about loops and channels\<close>

type_synonym u8 = "8 word"
type_synonym u16 = "16 word"
type_synonym u32 = "32 word"
type_synonym i32 = "32 word" \<comment> \<open>Go's int32; \<open>sint\<close> reads it\<close>
type_synonym u64 = "64 word"
type_synonym uintptr = "64 word" \<comment> \<open>amd64\<close>
type_synonym handle = uintptr \<comment> \<open>\<open>windows.Handle\<close>\<close>

definition InvalidHandle :: handle where \<comment> \<open>\<open>windows.InvalidHandle\<close>\<close>
  "InvalidHandle = - 1"

text \<open>The kinds of WebSocket messages, as the library numbers them for both sides.\<close>

datatype msg_type = TextMessage | BinaryMessage | CloseMessage | PingMessage

section \<open>Little-endian bytes of machine words\<close>

primrec le_bytes :: "nat \<Rightarrow> 'a::len word \<Rightarrow> u8 list" where
  "le_bytes 0 w = []"
| "le_bytes (Suc n) w = ucast w # le_bytes n (drop_bit 8 w)"

primrec le_word :: "u8 list \<Rightarrow> 'a::len word" where
  "le_word [] = 0"
| "le_word (b # bs) = ucast b OR push_bit 8 (le_word bs)"

lemma length_le_bytes [simp, wire_simps]: "length (le_bytes n w) = n"
  by (induction n arbitrary: w) simp_all

lemma bit_le_word:
  "bit (le_word bs :: 'a::len word) n
     \<longleftrightarrow> n < LENGTH('a) \<and> n div 8 < length bs \<and> bit (bs ! (n div 8)) (n mod 8)"
proof (induction bs arbitrary: n)
  case Nil
  then show ?case by simp
next
  case (Cons b bs)
  show ?case
  proof (cases "n < 8")
    case True
    then show ?thesis
      by (auto simp: bit_simps)
  next
    case False
    then have d: "n div 8 = Suc ((n - 8) div 8)" and m: "n mod 8 = (n - 8) mod 8"
      by (simp_all add: le_div_geq le_mod_geq)
    have "\<not> bit b n"
      using False bit_imp_le_length [of b n] by auto
    with False show ?thesis
      by (auto simp: bit_simps Cons.IH d m)
  qed
qed

lemma nth_le_bytes: "i < n \<Longrightarrow> le_bytes n w ! i = ucast (drop_bit (8 * i) w)"
proof (induction n arbitrary: i w)
  case 0
  then show ?case by simp
next
  case (Suc n)
  then show ?case
    by (cases i) (simp_all add: drop_bit_drop_bit add.commute)
qed

lemma le_word_le_bytes [wire_simps]:
  assumes "LENGTH('a) \<le> 8 * n"
  shows "le_word (le_bytes n w) = (w :: 'a::len word)"
proof (rule bit_word_eqI)
  fix k
  assume k: "k < LENGTH('a)"
  with assms have i: "k div 8 < n" by linarith
  have "8 * (k div 8) + k mod 8 = k" by simp
  with k i show "bit (le_word (le_bytes n w) :: 'a word) k = bit w k"
    by (simp add: bit_le_word nth_le_bytes bit_simps)
qed

lemma le_bytes_le_word [wire_simps]:
  assumes "length bs = n" and "8 * n \<le> LENGTH('a)"
  shows "le_bytes n (le_word bs :: 'a::len word) = bs"
proof (rule nth_equalityI)
  show "length (le_bytes n (le_word bs :: 'a word)) = length bs"
    using assms(1) by simp
next
  fix i
  assume "i < length (le_bytes n (le_word bs :: 'a word))"
  then have i: "i < n" by simp
  show "le_bytes n (le_word bs :: 'a word) ! i = bs ! i"
  proof (rule bit_word_eqI)
    fix k
    assume "k < LENGTH(8)"
    then have k: "k < 8" by simp
    with i assms(2) have "8 * i + k < LENGTH('a)" by linarith
    with i k assms(1) show "bit (le_bytes n (le_word bs :: 'a word) ! i) k = bit (bs ! i) k"
      by (simp add: nth_le_bytes bit_simps bit_le_word)
  qed
qed

lemma ucast_le_word_prefix:
  assumes "LENGTH('b) = 8 * length xs" and "LENGTH('b) \<le> LENGTH('a)"
  shows "ucast (le_word (xs @ ys) :: 'a::len word) = (le_word xs :: 'b::len word)"
proof (rule bit_word_eqI)
  fix k
  assume k: "k < LENGTH('b)"
  then have "k div 8 < length xs" using assms(1) by linarith
  with k assms show "bit (ucast (le_word (xs @ ys) :: 'a word) :: 'b word) k = bit (le_word xs :: 'b word) k"
    by (simp add: bit_simps bit_le_word nth_append)
qed

lemma le_word_eq_0:
  assumes "8 * length bs \<le> LENGTH('a)"
  shows "(le_word bs :: 'a::len word) = 0 \<longleftrightarrow> bs = replicate (length bs) 0"
proof
  have z: "le_bytes n (0 :: 'a word) = replicate n 0" for n by (induction n) simp_all
  assume "(le_word bs :: 'a word) = 0"
  with le_bytes_le_word [OF refl assms] show "bs = replicate (length bs) 0" by (simp add: z)
next
  have "(le_word (replicate n 0) :: 'a word) = 0" for n by (induction n) simp_all
  then show "bs = replicate (length bs) 0 \<Longrightarrow> (le_word bs :: 'a word) = 0" by metis
qed

section \<open>Lists\<close>

lemma takeWhile_replicate_pad:
  assumes "\<forall>x \<in> set xs. P x" and "\<not> P y"
  shows "takeWhile P (xs @ replicate n y) = xs"
  using assms by (cases n) (simp_all add: takeWhile_append)

lemma take_drop_at:
  assumes "length pre = off" and "length mid = w"
  shows "take w (drop off (pre @ mid @ post)) = mid"
  using assms by simp

lemma count_list_distinct: "distinct xs \<Longrightarrow> x \<in> set xs \<Longrightarrow> count_list xs x = 1"
  by (induction xs) (auto simp: count_notin)

end
