(* ===== verification/Go_Wire.thy ===== *)
theory Go_Wire
  imports Medusa_Prelude
begin

text \<open>
  How Go lays a struct out in memory on amd64 (\<open>unsafe.Sizeof\<close> and the field offsets behind
  \<open>unsafe.Pointer\<close>), and the encodings of the field types the program's structs use. The
  program moves events between its parts by copying the bytes of the struct, so every size and
  offset below is observable. The contract of an encoding is the locale \<open>codec\<close>: a width, an
  encoder, a decoder and the values they are for. It is interpreted for the integer types and,
  by a sublocale, for fixed-size arrays of any codec.
\<close>

section \<open>Struct layout\<close>

type_synonym field_shape = "nat \<times> nat" \<comment> \<open>size and alignment of a field's type\<close>

definition align_up :: "nat \<Rightarrow> nat \<Rightarrow> nat" where
  "align_up a n = (n + a - 1) div a * a"

fun field_offsets :: "nat \<Rightarrow> field_shape list \<Rightarrow> nat list" where
  "field_offsets pos [] = []"
| "field_offsets pos ((sz, al) # fs) =
     align_up al pos # field_offsets (align_up al pos + sz) fs"

fun fields_end :: "nat \<Rightarrow> field_shape list \<Rightarrow> nat" where
  "fields_end pos [] = pos"
| "fields_end pos ((sz, al) # fs) = fields_end (align_up al pos + sz) fs"

definition struct_align :: "field_shape list \<Rightarrow> nat" where
  "struct_align fs = foldr max (map snd fs) 1"

definition go_sizeof :: "field_shape list \<Rightarrow> nat" where
  "go_sizeof fs = align_up (struct_align fs) (fields_end 0 fs)"

abbreviation shape_u16 :: field_shape where "shape_u16 \<equiv> (2, 2)"
abbreviation shape_u32 :: field_shape where "shape_u32 \<equiv> (4, 4)"
abbreviation shape_u64 :: field_shape where "shape_u64 \<equiv> (8, 8)"

definition shape_array :: "nat \<Rightarrow> field_shape \<Rightarrow> field_shape" where
  "shape_array n s = (n * fst s, snd s)"

section \<open>Encodings\<close>

definition enc_u16 :: "u16 \<Rightarrow> u8 list" where "enc_u16 = le_bytes 2"
definition enc_u32 :: "u32 \<Rightarrow> u8 list" where "enc_u32 = le_bytes 4"
definition enc_u64 :: "u64 \<Rightarrow> u8 list" where "enc_u64 = le_bytes 8"
definition dec_u16 :: "u8 list \<Rightarrow> u16" where "dec_u16 = le_word"
definition dec_u32 :: "u8 list \<Rightarrow> u32" where "dec_u32 = le_word"
definition dec_u64 :: "u8 list \<Rightarrow> u64" where "dec_u64 = le_word"

definition enc_array :: "('a \<Rightarrow> u8 list) \<Rightarrow> 'a list \<Rightarrow> u8 list" where
  "enc_array enc xs = concat (map enc xs)"

fun dec_array :: "nat \<Rightarrow> (u8 list \<Rightarrow> 'a) \<Rightarrow> nat \<Rightarrow> u8 list \<Rightarrow> 'a list" where
  "dec_array w dec 0 bs = []"
| "dec_array w dec (Suc n) bs = dec (take w bs) # dec_array w dec n (drop w bs)"

text \<open>The bytes a field of width \<open>w\<close> at offset \<open>off\<close> occupies in a memory image.\<close>

definition field_at :: "nat \<Rightarrow> nat \<Rightarrow> u8 list \<Rightarrow> u8 list" where
  "field_at off w bs = take w (drop off bs)"

lemma field_at_here: "length xs = w \<Longrightarrow> field_at 0 w (xs @ ys) = xs"
  by (simp add: field_at_def)

lemma field_at_all: "length xs = w \<Longrightarrow> field_at 0 w xs = xs"
  by (simp add: field_at_def)

lemma field_at_skip:
  "length xs \<le> off \<Longrightarrow> field_at off w (xs @ ys) = field_at (off - length xs) w ys"
  by (simp add: field_at_def)

section \<open>The contract of an encoding\<close>

locale codec =
  fixes width :: nat
    and enc :: "'a \<Rightarrow> u8 list"
    and dec :: "u8 list \<Rightarrow> 'a"
    and valid :: "'a \<Rightarrow> bool"
  assumes enc_width: "valid x \<Longrightarrow> length (enc x) = width"
    and dec_valid: "length bs = width \<Longrightarrow> valid (dec bs)"
    and dec_enc: "valid x \<Longrightarrow> dec (enc x) = x"
    and enc_dec: "length bs = width \<Longrightarrow> enc (dec bs) = bs"
begin

lemma enc_inject: "valid x \<Longrightarrow> valid y \<Longrightarrow> enc x = enc y \<longleftrightarrow> x = y"
  by (metis dec_enc)

lemma dec_field:
  assumes "valid x" and "length pre = off"
  shows "dec (field_at off width (pre @ enc x @ post)) = x"
  using assms by (simp add: field_at_def enc_width dec_enc)

end

locale array_codec = codec +
  fixes count :: nat
begin

lemma array_enc_width:
  "list_all valid xs \<Longrightarrow> length (enc_array enc xs) = length xs * width"
  by (induction xs) (simp_all add: enc_array_def enc_width)

lemma array_dec_enc:
  "list_all valid xs \<Longrightarrow> dec_array width dec (length xs) (enc_array enc xs) = xs"
  by (induction xs) (simp_all add: enc_array_def enc_width dec_enc)

lemma array_dec_valid:
  "length bs = n * width \<Longrightarrow>
     length (dec_array width dec n bs) = n \<and> list_all valid (dec_array width dec n bs)"
  by (induction n arbitrary: bs) (simp_all add: dec_valid)

lemma array_enc_dec:
  "length bs = n * width \<Longrightarrow> enc_array enc (dec_array width dec n bs) = bs"
proof (induction n arbitrary: bs)
  case 0
  then show ?case by (simp add: enc_array_def)
next
  case (Suc n)
  then have "enc_array enc (dec_array width dec n (drop width bs)) = drop width bs"
    by simp
  with Suc.prems show ?case
    by (simp add: enc_array_def enc_dec)
qed

end

sublocale array_codec \<subseteq> arr: codec "count * width" "enc_array enc" "dec_array width dec count"
    "\<lambda>xs. length xs = count \<and> list_all valid xs"
  using array_enc_width array_dec_enc array_dec_valid array_enc_dec
  by unfold_locales auto

interpretation u16: codec 2 enc_u16 dec_u16 "\<lambda>_. True"
  by unfold_locales (simp_all add: enc_u16_def dec_u16_def wire_simps)

interpretation u32: codec 4 enc_u32 dec_u32 "\<lambda>_. True"
  by unfold_locales (simp_all add: enc_u32_def dec_u32_def wire_simps)

interpretation u64: codec 8 enc_u64 dec_u64 "\<lambda>_. True"
  by unfold_locales (simp_all add: enc_u64_def dec_u64_def wire_simps)

interpretation u16s: array_codec 2 enc_u16 dec_u16 "\<lambda>_. True" count for count
  by unfold_locales

interpretation u32s: array_codec 4 enc_u32 dec_u32 "\<lambda>_. True" count for count
  by unfold_locales

end
