(* ===== verification/AC_Event.thy ===== *)
theory AC_Event
  imports Go_Wire
begin

text \<open>
  The event record every part of the system exchanges (\<open>ACEvent\<close> of
  \<^verbatim>\<open>MedusaUserlandAgent/Event.go\<close>, mirrored by \<^verbatim>\<open>MedusaBackend/Event.go\<close> and by the driver
  and the injected DLL), and its passage through raw memory: \<open>evToBytes\<close> is the agent's
  sending side, \<open>ACEvent_of_bytes\<close> the copy the receiving loops make into a zeroed variable.
  The padding the compiler puts into the struct is part of the memory image but of no field, so
  the image takes the content of the two holes as an argument and every theorem holds for all
  of them.
\<close>

section \<open>The event\<close>

type_synonym EventSource = i32

definition KM :: EventSource where "KM = 0"
definition UM :: EventSource where "UM = 1"
definition DLL :: EventSource where "DLL = 2"

record ACEvent =
  Src :: EventSource
  EventType :: "u16 list"
  CallerPID :: i32
  TargetPID :: i32
  ThreadID :: i32
  ImageFileName :: "i32 list"
  CommandLine :: "u16 list"
  IsCreate :: i32
  ImageBase :: uintptr
  ImageSize :: u32

text \<open>Go arrays have their length in their type.\<close>

definition wf_ACEvent :: "ACEvent \<Rightarrow> bool" where
  "wf_ACEvent ev \<longleftrightarrow> length (EventType ev) = 260 \<and> length (ImageFileName ev) = 260 \<and>
     length (CommandLine ev) = 1024"

definition zero_ACEvent :: ACEvent where
  "zero_ACEvent = \<lparr>Src = 0, EventType = replicate 260 0, CallerPID = 0, TargetPID = 0,
     ThreadID = 0, ImageFileName = replicate 260 0, CommandLine = replicate 1024 0,
     IsCreate = 0, ImageBase = 0, ImageSize = 0\<rparr>"

section \<open>Its memory image\<close>

definition ACEvent_shape :: "field_shape list" where
  "ACEvent_shape = [shape_u32, shape_array 260 shape_u16, shape_u32, shape_u32, shape_u32,
     shape_array 260 shape_u32, shape_array 1024 shape_u16, shape_u32, shape_u64, shape_u32]"

definition ACEvent_size :: nat where
  "ACEvent_size = go_sizeof ACEvent_shape"

type_synonym padding = "u32 \<times> u32" \<comment> \<open>the holes before \<open>ImageBase\<close> and after \<open>ImageSize\<close>\<close>

definition evToBytes :: "padding \<Rightarrow> ACEvent \<Rightarrow> u8 list" where
  "evToBytes pad ev =
     enc_u32 (Src ev) @ enc_array enc_u16 (EventType ev) @ enc_u32 (CallerPID ev) @
     enc_u32 (TargetPID ev) @ enc_u32 (ThreadID ev) @ enc_array enc_u32 (ImageFileName ev) @
     enc_array enc_u16 (CommandLine ev) @ enc_u32 (IsCreate ev) @ enc_u32 (fst pad) @
     enc_u64 (ImageBase ev) @ enc_u32 (ImageSize ev) @ enc_u32 (snd pad)"

definition ACEvent_of_bytes :: "u8 list \<Rightarrow> ACEvent" where
  "ACEvent_of_bytes bs =
     (let off = (\<lambda>i. field_offsets 0 ACEvent_shape ! i) in
      \<lparr>Src = dec_u32 (field_at (off 0) 4 bs),
       EventType = dec_array 2 dec_u16 260 (field_at (off 1) 520 bs),
       CallerPID = dec_u32 (field_at (off 2) 4 bs),
       TargetPID = dec_u32 (field_at (off 3) 4 bs),
       ThreadID = dec_u32 (field_at (off 4) 4 bs),
       ImageFileName = dec_array 4 dec_u32 260 (field_at (off 5) 1040 bs),
       CommandLine = dec_array 2 dec_u16 1024 (field_at (off 6) 2048 bs),
       IsCreate = dec_u32 (field_at (off 7) 4 bs),
       ImageBase = dec_u64 (field_at (off 8) 8 bs),
       ImageSize = dec_u32 (field_at (off 9) 4 bs)\<rparr>)"

text \<open>The two holes of a memory image.\<close>

definition padding_of_bytes :: "u8 list \<Rightarrow> padding" where
  "padding_of_bytes bs = (dec_u32 (field_at 3628 4 bs), dec_u32 (field_at 3644 4 bs))"

section \<open>Layout and round trips\<close>

lemma ACEvent_offsets [wire_simps]:
  "field_offsets 0 ACEvent_shape = [0, 4, 524, 528, 532, 536, 1576, 3624, 3632, 3640]"
  by (simp add: ACEvent_shape_def shape_array_def align_up_def)

lemma ACEvent_size_eq [simp]: "ACEvent_size = 3648"
  by (simp add: ACEvent_size_def go_sizeof_def struct_align_def ACEvent_shape_def
      shape_array_def align_up_def)

lemma wf_zero_ACEvent [simp]: "wf_ACEvent zero_ACEvent"
  by (simp add: wf_ACEvent_def zero_ACEvent_def)

lemmas scalar_widths [simp] = u16.enc_width u32.enc_width u64.enc_width

lemma array_widths [simp]:
  "length (enc_array enc_u16 xs) = 2 * length xs"
  "length (enc_array enc_u32 ys) = 4 * length ys"
  using u16s.array_enc_width [of xs] u32s.array_enc_width [of ys]
  by (simp_all add: list_all_iff)

lemma array_decodes [simp]:
  "length xs = n \<Longrightarrow> dec_array 2 dec_u16 n (enc_array enc_u16 xs) = xs"
  "length ys = n \<Longrightarrow> dec_array 4 dec_u32 n (enc_array enc_u32 ys) = ys"
  using u16s.array_dec_enc [of xs] u32s.array_dec_enc [of ys]
  by (auto simp: list_all_iff)

lemma length_evToBytes [simp, wire_simps]:
  "wf_ACEvent ev \<Longrightarrow> length (evToBytes pad ev) = ACEvent_size"
  by (simp add: evToBytes_def wf_ACEvent_def)

lemma ACEvent_of_evToBytes [simp, wire_simps]:
  "wf_ACEvent ev \<Longrightarrow> ACEvent_of_bytes (evToBytes pad ev) = ev"
  by (simp add: ACEvent_of_bytes_def evToBytes_def wf_ACEvent_def ACEvent_offsets
      field_at_skip field_at_here field_at_all u32.dec_enc u64.dec_enc)

lemma length_field_at [simp]: "off + w \<le> length bs \<Longrightarrow> length (field_at off w bs) = w"
  by (simp add: field_at_def)

lemma field_join: "field_at off w bs @ drop (off + w) bs = drop off bs"
  by (metis append_take_drop_id drop_drop add.commute field_at_def)

lemma wf_ACEvent_of_bytes [simp, wire_simps]:
  "length bs = ACEvent_size \<Longrightarrow> wf_ACEvent (ACEvent_of_bytes bs)"
  using u16s.array_dec_valid [of "field_at 4 520 bs" 260]
    u32s.array_dec_valid [of "field_at 536 1040 bs" 260]
    u16s.array_dec_valid [of "field_at 1576 2048 bs" 1024]
  by (simp add: wf_ACEvent_def ACEvent_of_bytes_def ACEvent_offsets)

lemma evToBytes_of_bytes:
  assumes "length bs = ACEvent_size"
  shows "evToBytes (padding_of_bytes bs) (ACEvent_of_bytes bs) = bs"
proof -
  have "evToBytes (padding_of_bytes bs) (ACEvent_of_bytes bs) =
      field_at 0 4 bs @ field_at 4 520 bs @ field_at 524 4 bs @ field_at 528 4 bs @
      field_at 532 4 bs @ field_at 536 1040 bs @ field_at 1576 2048 bs @ field_at 3624 4 bs @
      field_at 3628 4 bs @ field_at 3632 8 bs @ field_at 3640 4 bs @ field_at 3644 4 bs"
    using assms
    by (simp add: evToBytes_def ACEvent_of_bytes_def padding_of_bytes_def ACEvent_offsets
        u32.enc_dec u64.enc_dec u16s.array_enc_dec u32s.array_enc_dec)
  also have "field_at 3644 4 bs = drop 3644 bs"
    using assms by (simp add: field_at_def)
  also have "field_at 0 4 bs @ field_at 4 520 bs @ field_at 524 4 bs @ field_at 528 4 bs @
      field_at 532 4 bs @ field_at 536 1040 bs @ field_at 1576 2048 bs @ field_at 3624 4 bs @
      field_at 3628 4 bs @ field_at 3632 8 bs @ field_at 3640 4 bs @ drop 3644 bs = bs"
    using field_join [of 0 4 bs] field_join [of 4 520 bs] field_join [of 524 4 bs]
      field_join [of 528 4 bs] field_join [of 532 4 bs] field_join [of 536 1040 bs]
      field_join [of 1576 2048 bs] field_join [of 3624 4 bs] field_join [of 3628 4 bs]
      field_join [of 3632 8 bs] field_join [of 3640 4 bs]
    by simp
  finally show ?thesis .
qed

section \<open>Properties\<close>

text \<open>An event whose arrays have their declared lengths is 3648 bytes long as
  \<open>evToBytes\<close> copies it, and the bytes read as the struct again give back the event, whatever the
  compiler's padding holds.\<close>

lemma evToBytes_roundtrip:
  assumes "wf_ACEvent ev"
  shows "length (evToBytes pad ev) = 3648 \<and> ACEvent_of_bytes (evToBytes pad ev) = ev"
  using assms by simp

text \<open>Conversely every block of 3648 bytes is the memory image of exactly
  the event read from it: writing that event with the bytes that stood in the padding gives the
  block back, and two blocks that agree as events differ in the padding only.\<close>

lemma ACEvent_bytes_bijection:
  assumes "length bs = 3648"
  shows "wf_ACEvent (ACEvent_of_bytes bs) \<and>
    evToBytes (padding_of_bytes bs) (ACEvent_of_bytes bs) = bs \<and>
    (\<forall>cs. length cs = 3648 \<and> ACEvent_of_bytes cs = ACEvent_of_bytes bs \<and>
       padding_of_bytes cs = padding_of_bytes bs \<longrightarrow> cs = bs)"
  using assms evToBytes_of_bytes by (metis ACEvent_size_eq wf_ACEvent_of_bytes)

end
