(* ===== verification/Go_Text.thy ===== *)
theory Go_Text
  imports Medusa_Prelude
begin

text \<open>
  The text functions of Go and its standard library that the program uses. A Go string is a
  sequence of bytes, here \<open>string\<close> (an Isabelle character is a byte); runes are code points.
  Modelled are the conversions between strings and runes (\<open>[]rune(s)\<close>, \<open>for _, r := range s\<close>
  and \<open>string(runes)\<close>, that is UTF-8 with U+FFFD for what is not valid), \<open>utf16.Encode\<close> and
  \<open>utf16.Decode\<close>, and \<open>syscall.UTF16ToString\<close> of Windows, which stops at the first NUL and
  keeps an unpaired surrogate as its three raw bytes instead of replacing it.
\<close>

section \<open>UTF-8\<close>

definition RuneError :: nat where "RuneError = 0xFFFD"

definition is_surrogate :: "nat \<Rightarrow> bool" where
  "is_surrogate r \<longleftrightarrow> 0xD800 \<le> r \<and> r < 0xE000"

definition valid_rune :: "nat \<Rightarrow> bool" where
  "valid_rune r \<longleftrightarrow> r \<le> 0x10FFFF \<and> \<not> is_surrogate r"

definition is_cont :: "nat \<Rightarrow> bool" where
  "is_cont b \<longleftrightarrow> 0x80 \<le> b \<and> b \<le> 0xBF"

text \<open>\<open>utf8.DecodeRune\<close>: the rune and the number of bytes it takes, \<open>(RuneError, 1)\<close> for a byte
  that starts no valid sequence. The second byte's range depends on the first, which excludes
  overlong forms, surrogates and values past U+10FFFF.\<close>

definition decode2 :: "nat \<Rightarrow> nat list \<Rightarrow> nat \<times> nat" where
  "decode2 b0 bs =
     (case bs of
        b1 # _ \<Rightarrow> if is_cont b1 then ((b0 - 0xC0) * 64 + (b1 - 0x80), 2) else (RuneError, 1)
      | [] \<Rightarrow> (RuneError, 1))"

definition decode3 :: "nat \<Rightarrow> nat list \<Rightarrow> nat \<times> nat" where
  "decode3 b0 bs =
     (case bs of
        b1 # b2 # _ \<Rightarrow>
          if (if b0 = 0xE0 then 0xA0 else 0x80) \<le> b1 \<and>
             b1 \<le> (if b0 = 0xED then 0x9F else 0xBF) \<and> is_cont b2
          then ((b0 - 0xE0) * 4096 + (b1 - 0x80) * 64 + (b2 - 0x80), 3) else (RuneError, 1)
      | _ \<Rightarrow> (RuneError, 1))"

definition decode4 :: "nat \<Rightarrow> nat list \<Rightarrow> nat \<times> nat" where
  "decode4 b0 bs =
     (case bs of
        b1 # b2 # b3 # _ \<Rightarrow>
          if (if b0 = 0xF0 then 0x90 else 0x80) \<le> b1 \<and>
             b1 \<le> (if b0 = 0xF4 then 0x8F else 0xBF) \<and> is_cont b2 \<and> is_cont b3
          then ((b0 - 0xF0) * 262144 + (b1 - 0x80) * 4096 + (b2 - 0x80) * 64 + (b3 - 0x80), 4)
          else (RuneError, 1)
      | _ \<Rightarrow> (RuneError, 1))"

fun decode_rune :: "nat list \<Rightarrow> nat \<times> nat" where
  "decode_rune [] = (RuneError, 0)"
| "decode_rune (b0 # bs) =
     (if b0 < 0x80 then (b0, 1)
      else if 0xC2 \<le> b0 \<and> b0 \<le> 0xDF then decode2 b0 bs
      else if 0xE0 \<le> b0 \<and> b0 \<le> 0xEF then decode3 b0 bs
      else if 0xF0 \<le> b0 \<and> b0 \<le> 0xF4 then decode4 b0 bs
      else (RuneError, 1))"

fun runes_of_bytes :: "nat list \<Rightarrow> nat list" where
  "runes_of_bytes [] = []"
| "runes_of_bytes (b # bs) =
     (let (r, n) = decode_rune (b # bs) in r # runes_of_bytes (drop (n - 1) bs))"

definition encode3 :: "nat \<Rightarrow> nat list" where
  "encode3 r = [0xE0 + r div 4096, 0x80 + r div 64 mod 64, 0x80 + r mod 64]"

definition encode_rune :: "nat \<Rightarrow> nat list" where
  "encode_rune r =
     (if r < 0x80 then [r]
      else if r < 0x800 then [0xC0 + r div 64, 0x80 + r mod 64]
      else if is_surrogate r \<or> r > 0x10FFFF then encode3 RuneError
      else if r < 0x10000 then encode3 r
      else [0xF0 + r div 262144, 0x80 + r div 4096 mod 64, 0x80 + r div 64 mod 64,
            0x80 + r mod 64])"

definition bytes_of_runes :: "nat list \<Rightarrow> nat list" where
  "bytes_of_runes rs = concat (map encode_rune rs)"

definition string_bytes :: "string \<Rightarrow> nat list" where
  "string_bytes s = map of_char s"

definition bytes_string :: "nat list \<Rightarrow> string" where
  "bytes_string bs = map char_of bs"

definition runes_of :: "string \<Rightarrow> nat list" where \<comment> \<open>\<open>[]rune(s)\<close>, \<open>range s\<close>\<close>
  "runes_of s = runes_of_bytes (string_bytes s)"

definition string_of_runes :: "nat list \<Rightarrow> string" where \<comment> \<open>\<open>string(runes)\<close>\<close>
  "string_of_runes rs = bytes_string (bytes_of_runes rs)"

section \<open>UTF-16\<close>

definition is_high :: "u16 \<Rightarrow> bool" where
  "is_high c \<longleftrightarrow> 0xD800 \<le> unat c \<and> unat c < 0xDC00"

definition is_low :: "u16 \<Rightarrow> bool" where
  "is_low c \<longleftrightarrow> 0xDC00 \<le> unat c \<and> unat c < 0xE000"

definition join_pair :: "u16 \<Rightarrow> u16 \<Rightarrow> nat" where
  "join_pair c d = (unat c - 0xD800) * 1024 + (unat d - 0xDC00) + 0x10000"

definition utf16_encode_rune :: "nat \<Rightarrow> u16 list" where
  "utf16_encode_rune r =
     (if r < 0xD800 \<or> (0xE000 \<le> r \<and> r < 0x10000) then [of_nat r]
      else if 0x10000 \<le> r \<and> r \<le> 0x10FFFF then
        [of_nat (0xD800 + (r - 0x10000) div 1024), of_nat (0xDC00 + (r - 0x10000) mod 1024)]
      else [0xFFFD])"

definition utf16_encode :: "nat list \<Rightarrow> u16 list" where
  "utf16_encode rs = concat (map utf16_encode_rune rs)"

fun utf16_decode :: "u16 list \<Rightarrow> nat list" where
  "utf16_decode [] = []"
| "utf16_decode (c # cs) =
     (if is_high c then
        (case cs of
           d # ds \<Rightarrow> if is_low d then join_pair c d # utf16_decode ds
                     else RuneError # utf16_decode cs
         | [] \<Rightarrow> [RuneError])
      else if is_low c then RuneError # utf16_decode cs
      else unat c # utf16_decode cs)"

text \<open>\<open>syscall.UTF16ToString\<close>, with its helper \<open>decodeWTF16\<close>.\<close>

fun decodeWTF16 :: "u16 list \<Rightarrow> nat list" where
  "decodeWTF16 [] = []"
| "decodeWTF16 (c # cs) =
     (if is_high c then
        (case cs of
           d # ds \<Rightarrow> if is_low d then encode_rune (join_pair c d) @ decodeWTF16 ds
                     else encode3 (unat c) @ decodeWTF16 cs
         | [] \<Rightarrow> encode3 (unat c))
      else if is_low c then encode3 (unat c) @ decodeWTF16 cs
      else encode_rune (unat c) @ decodeWTF16 cs)"

definition syscall_UTF16ToString :: "u16 list \<Rightarrow> string" where
  "syscall_UTF16ToString us = bytes_string (decodeWTF16 (takeWhile (\<lambda>c. c \<noteq> 0) us))"

text \<open>No surrogate without its partner.\<close>

fun wf_utf16 :: "u16 list \<Rightarrow> bool" where
  "wf_utf16 [] = True"
| "wf_utf16 (c # cs) =
     (if is_high c then (case cs of d # ds \<Rightarrow> is_low d \<and> wf_utf16 ds | [] \<Rightarrow> False)
      else \<not> is_low c \<and> wf_utf16 cs)"

section \<open>UTF-8 round trips\<close>

lemma encode_rune_length_pos [simp]: "0 < length (encode_rune r)"
  by (simp add: encode_rune_def encode3_def)

lemma encode_rune_bytes: "b \<in> set (encode_rune r) \<Longrightarrow> b < 256"
  by (auto simp: encode_rune_def encode3_def RuneError_def split: if_splits)

lemma base64_digits2:
  assumes "z < (64::nat)"
  shows "(x * 64 + z) div 64 = x" and "(x * 64 + z) mod 64 = z"
  using assms by simp_all

lemma base64_digits3:
  assumes "y < (64::nat)" and "z < 64"
  shows "(x * 4096 + y * 64 + z) div 4096 = x" and "(x * 4096 + y * 64 + z) div 64 mod 64 = y"
    and "(x * 4096 + y * 64 + z) mod 64 = z"
proof -
  have e: "x * 4096 + y * 64 + z = (x * 64 + y) * 64 + z" by simp
  have d: "n div 4096 = n div 64 div (64::nat)" for n by (simp flip: div_mult2_eq)
  show "(x * 4096 + y * 64 + z) div 4096 = x"
    unfolding d e using assms by (simp only: base64_digits2)
  show "(x * 4096 + y * 64 + z) div 64 mod 64 = y" and "(x * 4096 + y * 64 + z) mod 64 = z"
    unfolding e using assms by (simp_all only: base64_digits2)
qed

lemma base64_digits4:
  assumes "x < (64::nat)" and "y < 64" and "z < 64"
  shows "(w * 262144 + x * 4096 + y * 64 + z) div 262144 = w"
    and "(w * 262144 + x * 4096 + y * 64 + z) div 4096 mod 64 = x"
    and "(w * 262144 + x * 4096 + y * 64 + z) div 64 mod 64 = y"
    and "(w * 262144 + x * 4096 + y * 64 + z) mod 64 = z"
proof -
  have e: "w * 262144 + x * 4096 + y * 64 + z = (w * 64 + x) * 4096 + y * 64 + z" by simp
  have d: "n div 262144 = n div 4096 div (64::nat)" for n by (simp flip: div_mult2_eq)
  show "(w * 262144 + x * 4096 + y * 64 + z) div 262144 = w"
    unfolding d e using assms by (simp only: base64_digits3 base64_digits2)
  show "(w * 262144 + x * 4096 + y * 64 + z) div 4096 mod 64 = x"
    and "(w * 262144 + x * 4096 + y * 64 + z) div 64 mod 64 = y"
    and "(w * 262144 + x * 4096 + y * 64 + z) mod 64 = z"
    unfolding e using assms by (simp_all only: base64_digits3 base64_digits2)
qed

lemma base64_split2: "r div 64 * 64 + r mod 64 = (r::nat)"
  by simp

lemma base64_split3: "r div 4096 * 4096 + r div 64 mod 64 * 64 + r mod 64 = (r::nat)"
proof -
  have d: "r div 4096 = r div 64 div 64" by (simp flip: div_mult2_eq)
  have "r div 4096 * 64 + r div 64 mod 64 = r div 64"
    unfolding d by simp
  then show ?thesis using base64_split2 [of r] by linarith
qed

lemma base64_split4:
  "r div 262144 * 262144 + r div 4096 mod 64 * 4096 + r div 64 mod 64 * 64 + r mod 64 = (r::nat)"
proof -
  have d: "r div 262144 = r div 4096 div 64" by (simp flip: div_mult2_eq)
  have "r div 262144 * 64 + r div 4096 mod 64 = r div 4096"
    unfolding d by simp
  then show ?thesis using base64_split3 [of r] by linarith
qed

lemma decode_encode_rune [simp]:
  assumes "valid_rune r"
  shows "decode_rune (encode_rune r @ rest) = (r, length (encode_rune r))"
proof -
  consider (a) "r < 0x80" | (b) "0x80 \<le> r" "r < 0x800" | (c) "0x800 \<le> r" "r < 0x10000"
    | (d) "0x10000 \<le> r" by linarith
  then show ?thesis
  proof cases
    case a
    then show ?thesis by (simp add: encode_rune_def)
  next
    case b
    then have "2 \<le> r div 64" "r div 64 \<le> 31" by linarith+
    then show ?thesis using b
      by (simp add: encode_rune_def decode2_def is_cont_def)
  next
    case c
    with assms have s: "r < 0xD800 \<or> 0xE000 \<le> r"
      by (auto simp: valid_rune_def is_surrogate_def)
    define x y z where xyz: "x = r div 4096" "y = r div 64 mod 64" "z = r mod 64"
    have v: "x * 4096 + y * 64 + z = r" and yz: "y < 64" "z < 64"
      using base64_split3 [of r] by (simp_all add: xyz)
    have e: "encode_rune r = [0xE0 + x, 0x80 + y, 0x80 + z]"
      using c assms by (simp add: encode_rune_def encode3_def xyz valid_rune_def)
    have x: "x \<le> 15" and lo: "x = 0 \<Longrightarrow> 0x20 \<le> y" and hi: "x = 13 \<Longrightarrow> y \<le> 0x1F"
      using c s v yz by linarith+
    show ?thesis
      unfolding e using v yz x lo hi by (auto simp: decode3_def is_cont_def)
  next
    case d
    with assms have u: "r \<le> 0x10FFFF" by (simp add: valid_rune_def)
    define w x y z where wxyz: "w = r div 262144" "x = r div 4096 mod 64" "y = r div 64 mod 64"
      "z = r mod 64"
    have v: "w * 262144 + x * 4096 + y * 64 + z = r" and xyz: "x < 64" "y < 64" "z < 64"
      using base64_split4 [of r] by (simp_all add: wxyz)
    have e: "encode_rune r = [0xF0 + w, 0x80 + x, 0x80 + y, 0x80 + z]"
      using d assms by (simp add: encode_rune_def wxyz valid_rune_def)
    have w: "w \<le> 4" and lo: "w = 0 \<Longrightarrow> 0x10 \<le> x" and hi: "w = 4 \<Longrightarrow> x \<le> 0xF"
      using d u v xyz by linarith+
    show ?thesis
      unfolding e using v xyz w lo hi by (auto simp: decode4_def is_cont_def)
  qed
qed

text \<open>Either one byte was consumed, or the bytes consumed are the encoding of the rune.\<close>

lemma decode_rune_size:
  assumes "decode_rune (b # bs) = (r, n)"
  shows "1 \<le> n \<and> n \<le> length (b # bs)"
  using assms
  by (auto simp: decode2_def decode3_def decode4_def split: if_splits list.splits)

lemma encode_rune_of_digits2:
  assumes "2 \<le> x" "x \<le> 31" "z < 64"
  shows "encode_rune (x * 64 + z) = [0xC0 + x, 0x80 + z] \<and> valid_rune (x * 64 + z) \<and>
    0x80 \<le> x * 64 + z"
  using assms by (simp add: encode_rune_def base64_digits2 valid_rune_def is_surrogate_def)

lemma encode_rune_of_digits3:
  assumes "x \<le> 15" "y < 64" "z < 64" "x = 0 \<longrightarrow> 32 \<le> y" "x = 13 \<longrightarrow> y < 32"
  shows "encode_rune (x * 4096 + y * 64 + z) = [0xE0 + x, 0x80 + y, 0x80 + z] \<and>
    valid_rune (x * 4096 + y * 64 + z) \<and> 0x80 \<le> x * 4096 + y * 64 + z"
proof -
  have lo: "0x800 \<le> x * 4096 + y * 64 + z" using assms by (cases "x = 0") auto
  have hi: "x * 4096 + y * 64 + z < 0x10000" using assms by linarith
  have "x < 13 \<or> x = 13 \<or> 14 \<le> x" by linarith
  then have "\<not> is_surrogate (x * 4096 + y * 64 + z)"
    using assms unfolding is_surrogate_def by (elim disjE) simp_all
  with lo hi assms show ?thesis
    by (simp add: encode_rune_def encode3_def base64_digits3 valid_rune_def)
qed

lemma encode_rune_of_digits4:
  assumes "w \<le> 4" "x < 64" "y < 64" "z < 64" "w = 0 \<longrightarrow> 16 \<le> x" "w = 4 \<longrightarrow> x < 16"
  shows "encode_rune (w * 262144 + x * 4096 + y * 64 + z) =
      [0xF0 + w, 0x80 + x, 0x80 + y, 0x80 + z] \<and>
    valid_rune (w * 262144 + x * 4096 + y * 64 + z) \<and>
    0x80 \<le> w * 262144 + x * 4096 + y * 64 + z"
proof -
  have lo: "0x10000 \<le> w * 262144 + x * 4096 + y * 64 + z"
    using assms by (cases "w = 0") auto
  have hi: "w * 262144 + x * 4096 + y * 64 + z \<le> 0x10FFFF"
    using assms by (cases "w = 4") auto
  from lo hi assms show ?thesis
    by (simp add: encode_rune_def base64_digits4 valid_rune_def is_surrogate_def)
qed

lemma decode2_multi:
  assumes "decode2 b bs = (r, n)" and "1 < n" and "0xC2 \<le> b" "b \<le> 0xDF"
  shows "encode_rune r = take n (b # bs) \<and> valid_rune r \<and> 0x80 \<le> r"
proof (cases bs)
  case Nil
  with assms show ?thesis by (simp add: decode2_def)
next
  case (Cons b1 bs')
  with assms have c: "is_cont b1" and r: "r = (b - 0xC0) * 64 + (b1 - 0x80)" and n: "n = 2"
    by (auto simp: decode2_def split: if_splits)
  have "encode_rune r = [0xC0 + (b - 0xC0), 0x80 + (b1 - 0x80)] \<and> valid_rune r \<and> 0x80 \<le> r"
    unfolding r using c assms(3,4) by (intro encode_rune_of_digits2) (auto simp: is_cont_def)
  then show ?thesis using c Cons n assms(3) by (simp add: is_cont_def)
qed

lemma decode3_multi:
  assumes "decode3 b bs = (r, n)" and "1 < n" and "0xE0 \<le> b" "b \<le> 0xEF"
  shows "encode_rune r = take n (b # bs) \<and> valid_rune r \<and> 0x80 \<le> r"
proof -
  obtain b1 b2 bs' where bs: "bs = b1 # b2 # bs'"
    using assms(1,2) by (auto simp: decode3_def split: list.splits)
  with assms(1,2) have c: "is_cont b1" "is_cont b2" "b = 0xE0 \<longrightarrow> 0xA0 \<le> b1"
      "b = 0xED \<longrightarrow> b1 \<le> 0x9F"
    and r: "r = (b - 0xE0) * 4096 + (b1 - 0x80) * 64 + (b2 - 0x80)" and n: "n = 3"
    by (auto simp: decode3_def is_cont_def split: if_splits)
  have "encode_rune r = [0xE0 + (b - 0xE0), 0x80 + (b1 - 0x80), 0x80 + (b2 - 0x80)] \<and>
      valid_rune r \<and> 0x80 \<le> r"
    unfolding r using c assms(3,4) by (intro encode_rune_of_digits3) (auto simp: is_cont_def)
  then show ?thesis using c bs n assms(3) by (simp add: is_cont_def)
qed

lemma decode4_multi:
  assumes "decode4 b bs = (r, n)" and "1 < n" and "0xF0 \<le> b" "b \<le> 0xF4"
  shows "encode_rune r = take n (b # bs) \<and> valid_rune r \<and> 0x80 \<le> r"
proof -
  obtain b1 b2 b3 bs' where bs: "bs = b1 # b2 # b3 # bs'"
    using assms(1,2) by (auto simp: decode4_def split: list.splits)
  with assms(1,2) have c: "is_cont b1" "is_cont b2" "is_cont b3" "b = 0xF0 \<longrightarrow> 0x90 \<le> b1"
      "b = 0xF4 \<longrightarrow> b1 \<le> 0x8F"
    and r: "r = (b - 0xF0) * 262144 + (b1 - 0x80) * 4096 + (b2 - 0x80) * 64 + (b3 - 0x80)"
    and n: "n = 4"
    by (auto simp: decode4_def is_cont_def split: if_splits)
  have "encode_rune r =
      [0xF0 + (b - 0xF0), 0x80 + (b1 - 0x80), 0x80 + (b2 - 0x80), 0x80 + (b3 - 0x80)] \<and>
      valid_rune r \<and> 0x80 \<le> r"
    unfolding r using c assms(3,4) by (intro encode_rune_of_digits4) (auto simp: is_cont_def)
  then show ?thesis using c bs n assms(3) by (simp add: is_cont_def)
qed

lemma decode_rune_multi:
  assumes "decode_rune (b # bs) = (r, n)" and "1 < n"
  shows "encode_rune r = take n (b # bs) \<and> valid_rune r \<and> 0x80 \<le> r"
  using assms decode2_multi [of b bs r n] decode3_multi [of b bs r n] decode4_multi [of b bs r n]
  by (simp split: if_splits)

lemma valid_RuneError [simp]: "valid_rune RuneError"
  by (simp add: valid_rune_def is_surrogate_def RuneError_def)

lemma decode_rune_single:
  assumes "decode_rune (b # bs) = (r, n)" and "n \<le> 1"
  shows "n = 1 \<and> (b < 0x80 \<and> r = b \<or> 0x80 \<le> b \<and> r = RuneError)"
  using assms
  by (auto simp: decode2_def decode3_def decode4_def split: if_splits list.splits)

lemma decode_rune_valid:
  assumes "decode_rune (b # bs) = (r, n)"
  shows "valid_rune r"
proof (cases "1 < n")
  case True
  with assms show ?thesis using decode_rune_multi by blast
next
  case False
  with assms decode_rune_single [of b bs r n] show ?thesis
    by (auto simp: valid_rune_def is_surrogate_def RuneError_def)
qed

lemma runes_of_bytes_valid: "list_all valid_rune (runes_of_bytes bs)"
  by (induction bs rule: runes_of_bytes.induct)
    (auto simp: decode_rune_valid simp del: decode_rune.simps split: prod.splits)

lemma runes_of_valid [simp]: "list_all valid_rune (runes_of s)"
  by (simp add: runes_of_def runes_of_bytes_valid)

lemma runes_of_bytes_encode [simp]:
  assumes "valid_rune r"
  shows "runes_of_bytes (encode_rune r @ bs) = r # runes_of_bytes bs"
proof -
  obtain b es where e: "encode_rune r = b # es"
    using encode_rune_length_pos [of r] by (cases "encode_rune r") auto
  with decode_encode_rune [OF assms, of bs] show ?thesis
    by (simp del: decode_rune.simps)
qed

lemma runes_of_bytes_of_runes [simp]:
  "list_all valid_rune rs \<Longrightarrow> runes_of_bytes (bytes_of_runes rs) = rs"
  by (induction rs) (simp_all add: bytes_of_runes_def)

lemma string_bytes_bytes_string:
  "\<forall>b \<in> set bs. b < 256 \<Longrightarrow> string_bytes (bytes_string bs) = bs"
  by (induction bs) (simp_all add: string_bytes_def bytes_string_def)

lemma bytes_of_runes_small: "b \<in> set (bytes_of_runes rs) \<Longrightarrow> b < 256"
  by (auto simp: bytes_of_runes_def dest: encode_rune_bytes)

lemma bytes_string_string_bytes [simp]: "bytes_string (string_bytes s) = s"
  by (induction s) (simp_all add: string_bytes_def bytes_string_def)

lemma string_bytes_of_runes [simp]:
  "string_bytes (string_of_runes rs) = bytes_of_runes rs"
  by (simp add: string_of_runes_def string_bytes_bytes_string bytes_of_runes_small)

text \<open>Runes to string and back.\<close>

lemma runes_of_string_of_runes [simp]:
  "list_all valid_rune rs \<Longrightarrow> runes_of (string_of_runes rs) = rs"
  by (simp add: runes_of_def)

section \<open>UTF-16 round trips\<close>

lemma utf16_encode_simps [simp]:
  "utf16_encode [] = []"
  "utf16_encode (r # rs) = utf16_encode_rune r @ utf16_encode rs"
  by (simp_all add: utf16_encode_def)

lemma unat_of_nat_u16: "n < 65536 \<Longrightarrow> unat (of_nat n :: u16) = n"
  by (simp add: unat_of_nat)

lemma utf16_encode_rune_cases:
  assumes "valid_rune r"
  obtains (bmp) c where "utf16_encode_rune r = [c]" "unat c = r" "\<not> is_high c" "\<not> is_low c"
      "r < 0x10000"
    | (pair) c d where "utf16_encode_rune r = [c, d]" "is_high c" "is_low d" "join_pair c d = r"
      "0x10000 \<le> r"
proof (cases "r < 0x10000")
  case True
  with assms have "r < 0xD800 \<or> 0xE000 \<le> r"
    by (auto simp: valid_rune_def is_surrogate_def)
  with True show thesis
    by (intro bmp [of "of_nat r"])
      (auto simp: utf16_encode_rune_def unat_of_nat_u16 is_high_def is_low_def)
next
  case False
  with assms have r: "0x10000 \<le> r" "r \<le> 0x10FFFF"
    by (auto simp: valid_rune_def)
  define c d :: u16 where cd: "c = of_nat (0xD800 + (r - 0x10000) div 1024)"
    "d = of_nat (0xDC00 + (r - 0x10000) mod 1024)"
  have q: "(r - 0x10000) div 1024 < 1024" using r by linarith
  have m: "(r - 0x10000) mod 1024 < 1024" by simp
  have u: "unat c = 0xD800 + (r - 0x10000) div 1024" "unat d = 0xDC00 + (r - 0x10000) mod 1024"
    unfolding cd using q m by (intro unat_of_nat_u16, linarith)+
  have "utf16_encode_rune r = [c, d]"
    using r by (simp add: utf16_encode_rune_def cd)
  then show thesis
  proof (rule pair)
    show "is_high c" "is_low d" using u q m by (simp_all add: is_high_def is_low_def)
    show "join_pair c d = r" using u r by (simp add: join_pair_def)
  qed (use r in simp)
qed

lemma not_low_if_high: "is_high c \<Longrightarrow> \<not> is_low c"
  by (simp add: is_high_def is_low_def)

lemma utf16_decode_encode [simp]:
  "list_all valid_rune rs \<Longrightarrow> utf16_decode (utf16_encode rs) = rs"
proof (induction rs)
  case Nil
  then show ?case by simp
next
  case (Cons r rs)
  then have "valid_rune r" by simp
  then show ?case
    by (cases rule: utf16_encode_rune_cases) (use Cons in simp_all)
qed

lemma wf_utf16_encode [simp]: "list_all valid_rune rs \<Longrightarrow> wf_utf16 (utf16_encode rs)"
proof (induction rs)
  case Nil
  then show ?case by simp
next
  case (Cons r rs)
  then have "valid_rune r" by simp
  then show ?case
    by (cases rule: utf16_encode_rune_cases) (use Cons in simp_all)
qed

lemma utf16_encode_no_nul:
  "list_all valid_rune rs \<Longrightarrow> 0 \<notin> set rs \<Longrightarrow> 0 \<notin> set (utf16_encode rs)"
proof (induction rs)
  case Nil
  then show ?case by simp
next
  case (Cons r rs)
  then have "valid_rune r" by simp
  then show ?case
    by (cases rule: utf16_encode_rune_cases)
      (use Cons in \<open>auto simp: is_high_def is_low_def\<close>)
qed

text \<open>On well-formed UTF-16 the lenient and the strict decoder agree.\<close>

lemma decodeWTF16_wf:
  "wf_utf16 us \<Longrightarrow> decodeWTF16 us = bytes_of_runes (utf16_decode us)"
proof (induction us rule: wf_utf16.induct)
  case 1
  then show ?case by (simp add: bytes_of_runes_def)
next
  case (2 c cs)
  then show ?case
    by (cases cs) (auto simp: bytes_of_runes_def split: if_splits)
qed

lemma utf16_decode_valid: "list_all valid_rune (utf16_decode us)"
proof (induction us rule: utf16_decode.induct)
  case 1
  then show ?case by simp
next
  case (2 c cs)
  have pair: "valid_rune (join_pair c d)" if "is_high c" "is_low d" for d
    using that by (auto simp: valid_rune_def join_pair_def is_high_def is_low_def is_surrogate_def)
  have "unat c < 2 ^ LENGTH(16)" by (rule unsigned_less)
  then have bmp: "valid_rune (unat c)" if "\<not> is_high c" "\<not> is_low c"
    using that
    by (auto simp: valid_rune_def is_high_def is_low_def is_surrogate_def)
  show ?case
    using 2 pair bmp by (auto split: list.splits)
qed

end
