(* ===== verification/Go_Json.thy ===== *)
theory Go_Json
  imports Go_Text "HOL-Library.Char_ord" "HOL-Library.List_Lexorder"
begin

text \<open>
  \<open>json.Marshal\<close> of the Go standard library, for the one kind of value the program marshals: a
  map from strings to integers and strings. Keys are sorted bytewise, strings are quoted with
  the library's HTML-safe escapes, and a byte that is not valid UTF-8 becomes the escape of
  U+FFFD. The second half is the specification side: a reader for such objects that follows the
  JSON grammar (it refuses raw control characters and unknown escapes), and the proof that it
  reads back what the encoder wrote.
\<close>

section \<open>Encoding\<close>

datatype jval = JInt int | JStr string

definition hex_digit :: "nat \<Rightarrow> nat" where
  "hex_digit n = (if n < 10 then 0x30 + n else 0x57 + n)"

definition unicode_escape :: "nat \<Rightarrow> nat list" where
  "unicode_escape c = [0x5C, 0x75, hex_digit (c div 4096), hex_digit (c div 256 mod 16),
     hex_digit (c div 16 mod 16), hex_digit (c mod 16)]"

text \<open>\<open>htmlSafeSet\<close>: printable ASCII and DEL, without the quote, the backslash and the
  characters with a meaning in HTML.\<close>

definition html_safe :: "nat \<Rightarrow> bool" where
  "html_safe b \<longleftrightarrow> 0x20 \<le> b \<and> b < 0x80 \<and> b \<noteq> 0x22 \<and> b \<noteq> 0x5C \<and> b \<noteq> 0x3C \<and> b \<noteq> 0x3E \<and> b \<noteq> 0x26"

definition json_escape :: "nat \<Rightarrow> nat list" where
  "json_escape b =
     (if b = 0x5C \<or> b = 0x22 then [0x5C, b]
      else if b = 0x08 then [0x5C, 0x62]
      else if b = 0x0C then [0x5C, 0x66]
      else if b = 0x0A then [0x5C, 0x6E]
      else if b = 0x0D then [0x5C, 0x72]
      else if b = 0x09 then [0x5C, 0x74]
      else unicode_escape b)"

fun json_body :: "nat list \<Rightarrow> nat list" where
  "json_body [] = []"
| "json_body (b # bs) =
     (if b < 0x80 then (if html_safe b then [b] else json_escape b) @ json_body bs
      else let (c, n) = decode_rune (b # bs); rest = json_body (drop (n - 1) bs) in
        if c = RuneError \<and> n = 1 then unicode_escape 0xFFFD @ rest
        else if c = 0x2028 \<or> c = 0x2029 then unicode_escape c @ rest
        else take n (b # bs) @ rest)"

definition json_string :: "string \<Rightarrow> nat list" where
  "json_string s = [0x22] @ json_body (string_bytes s) @ [0x22]"

fun show_nat :: "nat \<Rightarrow> nat list" where
  "show_nat n = (if n < 10 then [0x30 + n] else show_nat (n div 10) @ [0x30 + n mod 10])"

definition show_int :: "int \<Rightarrow> nat list" where
  "show_int i = (if i < 0 then 0x2D # show_nat (nat (- i)) else show_nat (nat i))"

fun json_value :: "jval \<Rightarrow> nat list" where
  "json_value (JInt i) = show_int i"
| "json_value (JStr s) = json_string s"

definition json_member :: "string \<times> jval \<Rightarrow> nat list" where
  "json_member m = json_string (fst m) @ [0x3A] @ json_value (snd m)"

fun json_members :: "(string \<times> jval) list \<Rightarrow> nat list" where
  "json_members [] = []"
| "json_members [m] = json_member m"
| "json_members (m # ms) = json_member m @ [0x2C] @ json_members ms"

definition json_marshal_map :: "(string \<times> jval) list \<Rightarrow> string" where
  "json_marshal_map ms = bytes_string ([0x7B] @ json_members (sort_key fst ms) @ [0x7D])"

text \<open>The whole call. Of the values it can be given here none makes it fail, so the error side
  of the result is never taken; the callers still test it.\<close>

definition json_Marshal :: "(string \<times> jval) list \<Rightarrow> string + string" where
  "json_Marshal ms = Inr (json_marshal_map ms)"

section \<open>Reading\<close>

definition hex_value :: "nat \<Rightarrow> nat option" where
  "hex_value d =
     (if 0x30 \<le> d \<and> d \<le> 0x39 then Some (d - 0x30)
      else if 0x61 \<le> d \<and> d \<le> 0x66 then Some (d - 0x57)
      else if 0x41 \<le> d \<and> d \<le> 0x46 then Some (d - 0x37) else None)"

fun read_hex4 :: "nat list \<Rightarrow> (nat \<times> nat list) option" where
  "read_hex4 (a # b # c # d # rest) =
     (case (hex_value a, hex_value b, hex_value c, hex_value d) of
        (Some w, Some x, Some y, Some z) \<Rightarrow> Some (w * 4096 + x * 256 + y * 16 + z, rest)
      | _ \<Rightarrow> None)"
| "read_hex4 _ = None"

definition read_short :: "nat \<Rightarrow> nat option" where
  "read_short e =
     (if e = 0x22 \<or> e = 0x5C \<or> e = 0x2F then Some e
      else if e = 0x62 then Some 0x08 else if e = 0x66 then Some 0x0C
      else if e = 0x6E then Some 0x0A else if e = 0x72 then Some 0x0D
      else if e = 0x74 then Some 0x09 else None)"

text \<open>One character of a string literal: its UTF-8 bytes and the rest. Surrogate escapes are
  refused (the encoder never writes one).\<close>

fun read_char :: "nat list \<Rightarrow> (nat list \<times> nat list) option" where
  "read_char [] = None"
| "read_char (c # cs) =
     (if c = 0x5C then
        (case cs of
           [] \<Rightarrow> None
         | e # es \<Rightarrow>
             if e = 0x75 then
               (case read_hex4 es of
                  Some (r, rest) \<Rightarrow> if valid_rune r then Some (encode_rune r, rest) else None
                | None \<Rightarrow> None)
             else (case read_short e of Some b \<Rightarrow> Some ([b], es) | None \<Rightarrow> None))
      else if c < 0x20 \<or> c = 0x22 then None else Some ([c], cs))"

text \<open>The literal up to its closing quote, at most \<open>fuel\<close> characters of it.\<close>

fun read_body :: "nat \<Rightarrow> nat list \<Rightarrow> (nat list \<times> nat list) option" where
  "read_body 0 cs = None"
| "read_body (Suc fuel) cs =
     (case cs of
        [] \<Rightarrow> None
      | c # cs' \<Rightarrow>
          if c = 0x22 then Some ([], cs')
          else case read_char cs of
                 None \<Rightarrow> None
               | Some (bs, rest) \<Rightarrow>
                   map_option (\<lambda>(bs', rest'). (bs @ bs', rest')) (read_body fuel rest))"

definition read_string :: "nat list \<Rightarrow> (string \<times> nat list) option" where
  "read_string cs =
     (case cs of
        [] \<Rightarrow> None
      | c # cs' \<Rightarrow> if c = 0x22
          then map_option (\<lambda>(bs, rest). (bytes_string bs, rest)) (read_body (length cs) cs')
          else None)"

definition is_digit_byte :: "nat \<Rightarrow> bool" where
  "is_digit_byte d \<longleftrightarrow> 0x30 \<le> d \<and> d \<le> 0x39"

definition digits_value :: "nat list \<Rightarrow> nat" where
  "digits_value ds = foldl (\<lambda>a d. a * 10 + (d - 0x30)) 0 ds"

definition read_nat :: "nat list \<Rightarrow> (nat \<times> nat list) option" where
  "read_nat cs = (let ds = takeWhile is_digit_byte cs in
     if ds = [] then None else Some (digits_value ds, dropWhile is_digit_byte cs))"

definition read_int :: "nat list \<Rightarrow> (int \<times> nat list) option" where
  "read_int cs = (case cs of
       [] \<Rightarrow> None
     | c # cs' \<Rightarrow> if c = 0x2D then map_option (\<lambda>(n, r). (- int n, r)) (read_nat cs')
                  else map_option (\<lambda>(n, r). (int n, r)) (read_nat cs))"

definition read_value :: "nat list \<Rightarrow> (jval \<times> nat list) option" where
  "read_value cs = (case cs of
       [] \<Rightarrow> None
     | c # _ \<Rightarrow> if c = 0x22 then map_option (\<lambda>(s, r). (JStr s, r)) (read_string cs)
                else map_option (\<lambda>(i, r). (JInt i, r)) (read_int cs))"

definition read_member :: "nat list \<Rightarrow> ((string \<times> jval) \<times> nat list) option" where
  "read_member cs =
     (case read_string cs of
        Some (k, c # rest) \<Rightarrow>
          if c = 0x3A then map_option (\<lambda>(v, r). ((k, v), r)) (read_value rest) else None
      | _ \<Rightarrow> None)"

fun read_members :: "nat \<Rightarrow> nat list \<Rightarrow> (string \<times> jval) list option" where
  "read_members 0 cs = None"
| "read_members (Suc fuel) cs =
     (case read_member cs of
        Some (m, c # rest) \<Rightarrow>
          if c = 0x7D \<and> rest = [] then Some [m]
          else if c = 0x2C then map_option ((#) m) (read_members fuel rest) else None
      | _ \<Rightarrow> None)"

definition read_object :: "string \<Rightarrow> (string \<times> jval) list option" where
  "read_object s =
     (case string_bytes s of
        c # cs \<Rightarrow> if c = 0x7B then read_members (length cs) cs else None
      | [] \<Rightarrow> None)"

section \<open>What was written is read back\<close>

text \<open>A Go string with every invalid byte replaced by U+FFFD.\<close>

definition to_valid_utf8 :: "string \<Rightarrow> string" where
  "to_valid_utf8 s = string_of_runes (runes_of s)"

fun valid_text :: "jval \<Rightarrow> jval" where
  "valid_text (JInt i) = JInt i"
| "valid_text (JStr s) = JStr (to_valid_utf8 s)"

lemma hex_value_digit [simp]: "n < 16 \<Longrightarrow> hex_value (hex_digit n) = Some n"
  by (auto simp: hex_value_def hex_digit_def)

lemma hex4_recompose:
  "c div 4096 * 4096 + c div 256 mod 16 * 256 + c div 16 mod 16 * 16 + c mod 16 = (c::nat)"
proof -
  have d: "c div 4096 = c div 256 div 16" "c div 256 = c div 16 div 16"
    by (simp_all flip: div_mult2_eq)
  have "c div 4096 * 16 + c div 256 mod 16 = c div 256"
    and "c div 256 * 16 + c div 16 mod 16 = c div 16"
    by (simp_all only: d div_mult_mod_eq)
  moreover have "c div 16 * 16 + c mod 16 = c" by simp
  ultimately show ?thesis by linarith
qed

lemma read_unicode_escape [simp]:
  assumes "valid_rune c" and "c < 0x10000"
  shows "read_char (unicode_escape c @ rest) = Some (encode_rune c, rest)"
proof -
  have "c div 4096 < 16" using assms(2) by linarith
  then show ?thesis
    using assms(1) by (simp add: unicode_escape_def hex4_recompose)
qed

lemma encode_rune_ascii [simp]: "r < 0x80 \<Longrightarrow> encode_rune r = [r]"
  by (simp add: encode_rune_def)

lemma read_json_escape [simp]:
  assumes "b < 0x80"
  shows "read_char (json_escape b @ rest) = Some ([b], rest)"
proof (cases "b \<in> {0x5C, 0x22, 0x08, 0x0C, 0x0A, 0x0D, 0x09}")
  case True
  then show ?thesis by (auto simp: json_escape_def read_short_def)
next
  case False
  have "valid_rune b" using assms by (simp add: valid_rune_def is_surrogate_def)
  with False assms show ?thesis by (simp add: json_escape_def)
qed

lemma json_escape_head [simp]: "\<exists>es. json_escape b = 0x5C # es"
  by (auto simp: json_escape_def unicode_escape_def)

lemma read_body_char:
  assumes "read_char cs = Some (bs, rest)" and "read_body n rest = Some (xs, r)"
  shows "read_body (Suc n) cs = Some (bs @ xs, r)"
  using assms by (cases cs) (auto split: if_splits)

lemma read_body_more: "read_body n cs = Some p \<Longrightarrow> n \<le> m \<Longrightarrow> read_body m cs = Some p"
proof (induction n arbitrary: cs p m)
  case 0
  then show ?case by simp
next
  case (Suc n)
  then obtain m' where m: "m = Suc m'" "n \<le> m'" by (cases m) auto
  show ?case
    using Suc.prems(1) Suc.IH [OF _ m(2)] unfolding m(1)
    by (fastforce split: list.splits option.splits if_splits)
qed

lemma read_body_raw:
  assumes "\<forall>b \<in> set bs. 0x80 \<le> b" and "read_body n rest = Some (xs, r)"
  shows "read_body (length bs + n) (bs @ rest) = Some (bs @ xs, r)"
  using assms(1)
proof (induction bs)
  case Nil
  with assms(2) show ?case by simp
next
  case (Cons b bs)
  then have "read_char (b # bs @ rest) = Some ([b], bs @ rest)" by simp
  with Cons show ?case using read_body_char [of "b # bs @ rest" "[b]"] by simp
qed

lemma encode_rune_high_bytes:
  assumes "0x80 \<le> r" and "b \<in> set (encode_rune r)"
  shows "0x80 \<le> b"
  using assms by (auto simp: encode_rune_def encode3_def RuneError_def split: if_splits)

lemma read_body_chunk:
  assumes "read_char (chunk @ rest) = Some (bs, rest)" and "chunk \<noteq> []"
    and "read_body n rest = Some (xs, r)"
  shows "read_body (length chunk + n) (chunk @ rest) = Some (bs @ xs, r)"
proof (rule read_body_more)
  show "read_body (Suc n) (chunk @ rest) = Some (bs @ xs, r)"
    using assms(1,3) by (rule read_body_char)
  show "Suc n \<le> length chunk + n" using assms(2) by (cases chunk) auto
qed

lemma json_escape_nonempty [simp]: "json_escape b \<noteq> []" "unicode_escape c \<noteq> []"
  by (simp_all add: json_escape_def unicode_escape_def)

lemma read_safe_char [simp]: "html_safe b \<Longrightarrow> read_char (b # rest) = Some ([b], rest)"
  by (simp add: html_safe_def)

lemma read_json_body:
  "read_body (Suc (length (json_body bs))) (json_body bs @ 0x22 # rest) =
     Some (bytes_of_runes (runes_of_bytes bs), rest)"
proof (induction bs rule: json_body.induct)
  case 1
  then show ?case by (simp add: bytes_of_runes_def)
next
  case (2 b bs)
  show ?case
  proof (cases "b < 0x80")
    case True
    define chunk where "chunk = (if html_safe b then [b] else json_escape b)"
    have c: "read_char (chunk @ xs) = Some ([b], xs)" "chunk \<noteq> []" for xs
      using True by (simp_all add: chunk_def del: read_char.simps)
    have "read_body (length chunk + Suc (length (json_body bs)))
        (chunk @ json_body bs @ 0x22 # rest) = Some ([b] @ bytes_of_runes (runes_of_bytes bs), rest)"
      using c(1) c(2) 2(1)[OF True] by (rule read_body_chunk)
    moreover have "json_body (b # bs) = chunk @ json_body bs"
      using True by (simp add: chunk_def)
    ultimately show ?thesis using True by (simp add: bytes_of_runes_def)
  next
    case False
    obtain c n where cn: "decode_rune (b # bs) = (c, n)" by fastforce
    define bs' where "bs' = drop (n - 1) bs"
    have IH: "read_body (Suc (length (json_body bs'))) (json_body bs' @ 0x22 # rest) =
        Some (bytes_of_runes (runes_of_bytes bs'), rest)"
      using 2(2)[OF False cn [symmetric] refl] by (simp add: bs'_def)
    have runes: "runes_of_bytes (b # bs) = c # runes_of_bytes bs'"
      using cn by (simp add: bs'_def del: decode_rune.simps)
    have multi: "encode_rune c = take n (b # bs) \<and> 0x80 \<le> c" if "n \<noteq> 1"
      using decode_rune_multi [OF cn] decode_rune_size [OF cn] that by linarith
    have c: "c = RuneError" if "n = 1"
      using decode_rune_single [OF cn] that False by simp
    define chunk where "chunk =
      (if c = RuneError \<and> n = 1 then unicode_escape 0xFFFD
       else if c = 0x2028 \<or> c = 0x2029 then unicode_escape c else take n (b # bs))"
    have body: "json_body (b # bs) = chunk @ json_body bs'"
      using False cn by (simp add: chunk_def bs'_def Let_def del: decode_rune.simps)
    have "read_body (length chunk + Suc (length (json_body bs')))
        (chunk @ json_body bs' @ 0x22 # rest) =
        Some (encode_rune c @ bytes_of_runes (runes_of_bytes bs'), rest)"
    proof (cases "c = RuneError \<and> n = 1 \<or> c = 0x2028 \<or> c = 0x2029")
      case True
      then have "chunk = unicode_escape c" by (auto simp: chunk_def RuneError_def)
      moreover have "valid_rune c" "c < 0x10000"
        using True by (auto simp: RuneError_def valid_rune_def is_surrogate_def)
      ultimately show ?thesis by (intro read_body_chunk IH) simp_all
    next
      case F: False
      then have n: "n \<noteq> 1" using c by auto
      have chunk: "chunk = encode_rune c" using F multi [OF n] by (auto simp: chunk_def)
      show ?thesis
        unfolding chunk using multi [OF n] IH
        by (intro read_body_raw) (auto dest: encode_rune_high_bytes)
    qed
    then show ?thesis unfolding body runes by (simp add: bytes_of_runes_def)
  qed
qed

lemma read_json_string [simp]:
  "read_string (json_string s @ rest) = Some (to_valid_utf8 s, rest)"
proof -
  let ?b = "json_body (string_bytes s)"
  have "read_body (length (json_string s @ rest)) (?b @ 0x22 # rest) =
      Some (bytes_of_runes (runes_of_bytes (string_bytes s)), rest)"
    by (rule read_body_more [OF read_json_body]) (simp add: json_string_def)
  then show ?thesis
    by (simp add: read_string_def json_string_def to_valid_utf8_def string_of_runes_def
        runes_of_def)
qed

lemma json_string_head: "\<exists>cs. json_string s = 0x22 # cs"
  by (simp add: json_string_def)

declare show_nat.simps [simp del]

lemma show_nat_digits: "d \<in> set (show_nat n) \<Longrightarrow> is_digit_byte d"
  by (induction n rule: show_nat.induct)
    (subst (asm) (2) show_nat.simps, auto simp: is_digit_byte_def split: if_splits)

lemma show_nat_nonempty [simp]: "show_nat n \<noteq> []"
  by (subst show_nat.simps) simp

lemma digits_value_show_nat [simp]: "digits_value (show_nat n) = n"
  by (induction n rule: show_nat.induct)
    (subst show_nat.simps, simp add: digits_value_def)

text \<open>What may follow a number in an object: no digit.\<close>

lemma read_nat_show [simp]:
  assumes "rest = [] \<or> \<not> is_digit_byte (hd rest)"
  shows "read_nat (show_nat n @ rest) = Some (n, rest)"
proof -
  have "takeWhile is_digit_byte (show_nat n @ rest) = show_nat n @ takeWhile is_digit_byte rest"
    by (rule takeWhile_append2) (rule show_nat_digits)
  moreover have "dropWhile is_digit_byte (show_nat n @ rest) = dropWhile is_digit_byte rest"
    by (rule dropWhile_append2) (rule show_nat_digits)
  moreover have "takeWhile is_digit_byte rest = []" "dropWhile is_digit_byte rest = rest"
    using assms by (cases rest; simp)+
  ultimately show ?thesis by (simp add: read_nat_def)
qed

lemma show_nat_head: "\<exists>d ds. show_nat n = d # ds \<and> is_digit_byte d"
  using show_nat_digits [of "hd (show_nat n)" n] by (cases "show_nat n") auto

lemma read_int_show [simp]:
  assumes "rest = [] \<or> \<not> is_digit_byte (hd rest)"
  shows "read_int (show_int i @ rest) = Some (i, rest)"
proof (cases "i < 0")
  case True
  then show ?thesis using assms by (simp add: read_int_def show_int_def)
next
  case False
  obtain d ds where d: "show_nat (nat i) = d # ds" "is_digit_byte d"
    using show_nat_head by blast
  then have "d \<noteq> 0x2D" by (auto simp: is_digit_byte_def)
  then show ?thesis
    using False assms d read_nat_show [of rest "nat i"] by (simp add: read_int_def show_int_def)
qed

lemma show_int_head: "\<exists>d ds. show_int i = d # ds \<and> d \<noteq> 0x22"
  using show_nat_head [of "nat i"] show_nat_head [of "nat (- i)"]
  by (auto simp: show_int_def is_digit_byte_def)

lemma read_json_value [simp]:
  assumes "rest = [] \<or> \<not> is_digit_byte (hd rest)"
  shows "read_value (json_value v @ rest) = Some (valid_text v, rest)"
proof (cases v)
  case (JInt i)
  obtain d ds where "show_int i = d # ds" "d \<noteq> 0x22" using show_int_head by blast
  with JInt read_int_show [OF assms, of i] show ?thesis
    by (simp add: read_value_def del: read_int_show)
next
  case (JStr s)
  obtain cs where "json_string s = 0x22 # cs" using json_string_head by blast
  with JStr read_json_string [of s rest] show ?thesis
    by (simp add: read_value_def del: read_json_string)
qed

lemma read_json_member:
  assumes "rest = [] \<or> \<not> is_digit_byte (hd rest)"
  shows "read_member (json_member m @ rest) =
    Some ((to_valid_utf8 (fst m), valid_text (snd m)), rest)"
  using assms by (simp add: read_member_def json_member_def)

lemma json_member_length: "1 \<le> length (json_member m)"
  by (simp add: json_member_def)

lemma read_json_members:
  assumes "ms \<noteq> []" and "length ms \<le> fuel"
  shows "read_members fuel (json_members ms @ [0x7D]) =
    Some (map (\<lambda>m. (to_valid_utf8 (fst m), valid_text (snd m))) ms)"
  using assms
proof (induction ms arbitrary: fuel rule: json_members.induct)
  case 1
  then show ?case by simp
next
  case (2 m)
  then obtain f where "fuel = Suc f" by (cases fuel) auto
  then show ?case by (simp add: read_json_member is_digit_byte_def)
next
  case (3 m m' ms)
  then obtain f where "fuel = Suc f" "length (m' # ms) \<le> f" by (cases fuel) auto
  with "3.IH" show ?case by (simp add: read_json_member is_digit_byte_def)
qed

lemma json_members_length: "length ms \<le> length (json_members ms)"
proof (induction ms rule: json_members.induct)
  case (2 m)
  then show ?case using json_member_length [of m] by simp
next
  case (3 m m' ms)
  then show ?case using json_member_length [of m] by simp
qed simp

lemma hex_digit_small: "n < 16 \<Longrightarrow> hex_digit n < 256"
  by (simp add: hex_digit_def)

lemma unicode_escape_small: "c < 0x10000 \<Longrightarrow> b \<in> set (unicode_escape c) \<Longrightarrow> b < 256"
proof -
  assume c: "c < 0x10000" and b: "b \<in> set (unicode_escape c)"
  have "c div 4096 < 16" using c by linarith
  with b show ?thesis by (auto simp: unicode_escape_def hex_digit_small)
qed

lemma json_escape_small: "b < 0x80 \<Longrightarrow> x \<in> set (json_escape b) \<Longrightarrow> x < 256"
  using unicode_escape_small [of b x] by (auto simp: json_escape_def split: if_splits)

lemma json_body_small:
  "list_all (\<lambda>b. b < 256) bs \<Longrightarrow> list_all (\<lambda>b. b < 256) (json_body bs)"
proof (induction bs rule: json_body.induct)
  case 1
  then show ?case by simp
next
  case (2 b bs)
  show ?case
  proof (cases "b < 0x80")
    case True
    with 2 show ?thesis
      by (auto simp: list_all_iff json_escape_small)
  next
    case False
    obtain c n where cn: "decode_rune (b # bs) = (c, n)" by fastforce
    define chunk where "chunk =
      (if c = RuneError \<and> n = 1 then unicode_escape 0xFFFD
       else if c = 0x2028 \<or> c = 0x2029 then unicode_escape c else take n (b # bs))"
    have body: "json_body (b # bs) = chunk @ json_body (drop (n - 1) bs)"
      using False cn by (simp add: chunk_def Let_def del: decode_rune.simps)
    have "list_all (\<lambda>b. b < 256) (json_body (drop (n - 1) bs))"
      by (rule 2(2)[OF False cn [symmetric] refl])
        (use "2.prems" in \<open>auto simp: list_all_iff dest: in_set_dropD\<close>)
    moreover have "list_all (\<lambda>x. x < 256) (take n (b # bs))"
      using "2.prems" by (auto simp only: list_all_iff dest: in_set_takeD)
    then have "list_all (\<lambda>x. x < 256) chunk"
      using unicode_escape_small [of c] unicode_escape_small [of "0xFFFD"]
      by (auto simp: chunk_def list_all_iff)
    ultimately show ?thesis unfolding body by simp
  qed
qed

lemma json_string_small: "list_all (\<lambda>b. b < 256) (json_string s)"
  using json_body_small [of "string_bytes s"]
  by (simp add: json_string_def string_bytes_def list_all_iff)

lemma show_int_small: "list_all (\<lambda>b. b < 256) (show_int i)"
  by (auto simp: show_int_def list_all_iff is_digit_byte_def dest!: show_nat_digits)

lemma json_members_small: "list_all (\<lambda>b. b < 256) (json_members ms)"
proof -
  have m: "list_all (\<lambda>b. b < 256) (json_member m)" for m
    by (cases "snd m") (simp_all add: json_member_def json_string_small show_int_small)
  show ?thesis by (induction ms rule: json_members.induct) (simp_all add: m)
qed

text \<open>The object read back: the members in the order of their keys, their text made valid.\<close>

lemma read_json_marshal_map:
  assumes "ms \<noteq> []"
  shows "read_object (json_marshal_map ms) =
    Some (map (\<lambda>m. (to_valid_utf8 (fst m), valid_text (snd m))) (sort_key fst ms))"
proof -
  let ?ms = "sort_key fst ms"
  have ne: "?ms \<noteq> []" using assms by (metis length_0_conv length_sort)
  have "string_bytes (json_marshal_map ms) = 0x7B # json_members ?ms @ [0x7D]"
    unfolding json_marshal_map_def
    using json_members_small [of ?ms] by (subst string_bytes_bytes_string) (auto simp: list_all_iff)
  moreover have "read_members (length (json_members ?ms @ [0x7D])) (json_members ?ms @ [0x7D]) =
      Some (map (\<lambda>m. (to_valid_utf8 (fst m), valid_text (snd m))) ?ms)"
    using json_members_length [of ?ms] by (intro read_json_members ne) simp
  ultimately show ?thesis by (simp add: read_object_def)
qed

lemma to_valid_utf8_of_runes [simp]:
  "list_all valid_rune rs \<Longrightarrow> to_valid_utf8 (string_of_runes rs) = string_of_runes rs"
  by (simp add: to_valid_utf8_def)

lemma runes_of_ascii:
  "\<forall>c \<in> set s. of_char c < (128::nat) \<Longrightarrow> runes_of s = map of_char s"
  by (induction s) (simp_all add: runes_of_def string_bytes_def)

lemma to_valid_utf8_ascii [simp]:
  assumes "\<forall>c \<in> set s. of_char c < (128::nat)"
  shows "to_valid_utf8 s = s"
proof -
  have "bytes_of_runes (map of_char s) = map of_char s"
    using assms by (induction s) (simp_all add: bytes_of_runes_def)
  then show ?thesis
    using assms bytes_string_string_bytes [of s]
    by (simp add: to_valid_utf8_def runes_of_ascii string_of_runes_def string_bytes_def)
qed

end
