(* ===== verification/Event_Text.thy ===== *)
theory Event_Text
  imports AC_Event Go_Json
begin

text \<open>
  The text side of events in the agent: reading the fixed buffers of an event
  (\<open>utf16ToString\<close>, \<open>int32ToString\<close> of \<^verbatim>\<open>MedusaUserlandAgent/Event.go\<close>), filling them
  (\<open>StringZInto\<close> and its wrappers of \<^verbatim>\<open>structs.go\<close>) and printing an event as JSON
  (\<open>ToJSON\<close>). The lemmas give the buffers a closed form and show which strings survive the trip
  through each kind of buffer.
\<close>

section \<open>Reading buffers\<close>

function nul_index :: "u16 list \<Rightarrow> nat \<Rightarrow> nat" where
  "nul_index buf n = (if n < length buf \<and> buf ! n \<noteq> 0 then nul_index buf (n + 1) else n)"
  by pat_completeness auto
termination
  by (relation "measure (\<lambda>(buf, n). length buf - n)") auto

definition utf16ToString :: "u16 list \<Rightarrow> string" where
  "utf16ToString buf = syscall_UTF16ToString (take (nul_index buf 0) buf)"

fun int32_units :: "i32 list \<Rightarrow> u16 list" where
  "int32_units [] = []"
| "int32_units (v # vs) = (if v = 0 then [] else ucast v # int32_units vs)"

definition int32ToString :: "i32 list \<Rightarrow> string" where
  "int32ToString buf = syscall_UTF16ToString (int32_units buf)"

section \<open>Filling buffers\<close>

fun store_runes :: "nat \<Rightarrow> nat list \<Rightarrow> i32 list \<Rightarrow> i32 list" where
  "store_runes i [] dst = dst"
| "store_runes i (r # rs) dst =
     (if length dst - 1 \<le> i then dst else store_runes (i + 1) rs (dst[i := of_nat r]))"

fun store_units :: "nat \<Rightarrow> u16 list \<Rightarrow> u16 list \<Rightarrow> u16 list" where
  "store_units i [] dst = dst"
| "store_units i (c # cs) dst = store_units (i + 1) cs (dst[i := c])"

text \<open>\<open>StringZInto\<close> at its two instances: the type switch selects the branch.\<close>

definition StringZInto_i32 :: "i32 list \<Rightarrow> string \<Rightarrow> i32 list" where
  "StringZInto_i32 dst s =
     (let dst = map (\<lambda>_. 0) dst in
      if length dst \<le> 1 then dst else store_runes 0 (runes_of s) dst)"

definition StringZInto_u16 :: "u16 list \<Rightarrow> string \<Rightarrow> u16 list" where
  "StringZInto_u16 dst s =
     (let dst = map (\<lambda>_. 0) dst in
      if length dst \<le> 1 then dst
      else let cu = utf16_encode (runes_of s);
               cu = (if length cu > length dst - 1 then take (length dst - 1) cu else cu)
           in store_units 0 cu dst)"

definition StringZ260I32 :: "string \<Rightarrow> i32 list" where
  "StringZ260I32 s = StringZInto_i32 (replicate 260 0) s"

definition StringZ260U16 :: "string \<Rightarrow> u16 list" where
  "StringZ260U16 s = StringZInto_u16 (replicate 260 0) s"

definition StringZ1024U16 :: "string \<Rightarrow> u16 list" where
  "StringZ1024U16 s = StringZInto_u16 (replicate 1024 0) s"

section \<open>An event as JSON\<close>

definition event_fields :: "ACEvent \<Rightarrow> (string \<times> jval) list" where
  "event_fields e =
     [(''Src'', JInt (sint (Src e))),
      (''EventType'', JStr (utf16ToString (EventType e))),
      (''CallerPID'', JInt (sint (CallerPID e))),
      (''TargetPID'', JInt (sint (TargetPID e))),
      (''ThreadID'', JInt (sint (ThreadID e))),
      (''ImageFileName'', JStr (int32ToString (ImageFileName e))),
      (''CommandLine'', JStr (utf16ToString (CommandLine e))),
      (''IsCreate'', JInt (sint (IsCreate e))),
      (''ImageBase'', JInt (uint (ImageBase e))),
      (''ImageSize'', JInt (uint (ImageSize e)))]"

definition ToJSON :: "ACEvent \<Rightarrow> string \<times> string option" where
  "ToJSON e = (case json_Marshal (event_fields e) of
       Inl err \<Rightarrow> ([], Some err)
     | Inr data \<Rightarrow> (data, None))"

section \<open>Closed forms\<close>

declare nul_index.simps [simp del]

lemma nul_index_eq: "n \<le> length buf \<Longrightarrow>
    nul_index buf n = n + length (takeWhile (\<lambda>c. c \<noteq> 0) (drop n buf))"
proof (induction buf n rule: nul_index.induct)
  case (1 buf n)
  show ?case
  proof (cases "n < length buf \<and> buf ! n \<noteq> 0")
    case True
    with 1 show ?thesis
      by (simp add: nul_index.simps [of buf n] Cons_nth_drop_Suc [symmetric])
  next
    case False
    then have "takeWhile (\<lambda>c. c \<noteq> 0) (drop n buf) = []"
      by (cases "n < length buf") (simp_all add: Cons_nth_drop_Suc [symmetric])
    with False show ?thesis by (auto simp: nul_index.simps [of buf n])
  qed
qed

lemma take_nul_index [simp]: "take (nul_index buf 0) buf = takeWhile (\<lambda>c. c \<noteq> 0) buf"
  by (simp add: nul_index_eq flip: takeWhile_eq_take)

lemma utf16ToString_eq: "utf16ToString buf = syscall_UTF16ToString buf"
  by (simp add: utf16ToString_def syscall_UTF16ToString_def takeWhile_idem)

lemma int32_units_eq: "int32_units buf = map ucast (takeWhile (\<lambda>v. v \<noteq> 0) buf)"
  by (induction buf) simp_all

text \<open>A list cut to \<open>n - 1\<close> places and filled up with zeros to \<open>n\<close>.\<close>

definition zpad :: "nat \<Rightarrow> 'a::zero list \<Rightarrow> 'a list" where
  "zpad n xs = take (n - 1) xs @ replicate (n - length (take (n - 1) xs)) 0"

lemma store_runes_append:
  "i = length pre \<Longrightarrow> store_runes i rs (pre @ replicate (Suc k) 0) =
     pre @ map of_nat (take k rs) @ replicate (Suc k - length (take k rs)) 0"
proof (induction rs arbitrary: i pre k)
  case Nil
  then show ?case by simp
next
  case (Cons r rs)
  show ?case
  proof (cases k)
    case 0
    with Cons.prems show ?thesis by simp
  next
    case (Suc k')
    have "store_runes (i + 1) rs ((pre @ [of_nat r]) @ replicate (Suc k') 0) =
        (pre @ [of_nat r]) @ map of_nat (take k' rs) @ replicate (Suc k' - length (take k' rs)) 0"
      using Cons.prems by (intro Cons.IH) simp
    with Suc Cons.prems show ?thesis by (simp add: list_update_append)
  qed
qed

lemma store_units_append:
  "length cs \<le> k \<Longrightarrow> store_units (length pre) cs (pre @ replicate k 0) =
     pre @ cs @ replicate (k - length cs) 0"
proof (induction cs arbitrary: pre k)
  case Nil
  then show ?case by simp
next
  case (Cons c cs)
  then obtain k' where k: "k = Suc k'" by (cases k) auto
  have "store_units (length (pre @ [c])) cs ((pre @ [c]) @ replicate k' 0) =
      (pre @ [c]) @ cs @ replicate (k' - length cs) 0"
    using Cons.prems k by (intro Cons.IH) simp
  with k show ?case by (simp add: list_update_append)
qed

lemma StringZInto_i32_eq:
  assumes "1 < length dst"
  shows "StringZInto_i32 dst s = zpad (length dst) (map of_nat (runes_of s))"
proof -
  obtain k where k: "length dst = Suc k" using assms by (cases "length dst") auto
  have "map (\<lambda>_. 0) dst = replicate (Suc k) (0 :: i32)"
    by (simp add: map_replicate_const k del: replicate_Suc)
  then show ?thesis
    using store_runes_append [of 0 "[]" "runes_of s" k] assms
    by (simp add: StringZInto_i32_def zpad_def take_map k del: replicate_Suc)
qed

lemma StringZInto_u16_eq:
  "1 < length dst \<Longrightarrow> StringZInto_u16 dst s = zpad (length dst) (utf16_encode (runes_of s))"
  using store_units_append [of "take (length dst - 1) (utf16_encode (runes_of s))" "length dst" "[]"]
  by (auto simp: StringZInto_u16_def zpad_def Let_def map_replicate_const)

lemmas StringZ_eqs = StringZ260I32_def StringZ260U16_def StringZ1024U16_def
  StringZInto_i32_eq StringZInto_u16_eq

lemma length_zpad [simp]: "0 < n \<Longrightarrow> length (zpad n xs) = n"
  by (simp add: zpad_def)

lemma last_zpad [simp]:
  assumes "0 < n"
  shows "last (zpad n xs) = 0"
proof -
  have "0 < n - length (take (n - 1) xs)" using assms by (auto simp: min_def)
  then show ?thesis by (simp add: zpad_def last_append del: length_take)
qed

lemma takeWhile_zpad:
  assumes "0 \<notin> set xs" and "length xs < n"
  shows "takeWhile (\<lambda>x. x \<noteq> 0) (zpad n xs) = xs"
  using assms by (auto simp: zpad_def intro!: takeWhile_replicate_pad)

lemma length_StringZ [simp]:
  "length (StringZ260I32 s) = 260" "length (StringZ260U16 s) = 260"
  "length (StringZ1024U16 s) = 1024"
  by (simp_all add: StringZ_eqs)

section \<open>Round trips through the buffers\<close>

lemma syscall_UTF16ToString_zpad:
  assumes "list_all valid_rune rs" and "0 \<notin> set rs" and "length (utf16_encode rs) < n"
  shows "syscall_UTF16ToString (zpad n (utf16_encode rs)) = string_of_runes rs"
  using assms
  by (simp add: syscall_UTF16ToString_def takeWhile_zpad utf16_encode_no_nul decodeWTF16_wf
      string_of_runes_def)

text \<open>Bytes a UTF-16 unit can contribute to the decoded text, counted per unit.\<close>

definition unit_bytes :: "u16 \<Rightarrow> nat" where
  "unit_bytes c = (if is_surrogate (unat c) then 3 else length (encode_rune (unat c)))"

lemma is_high_low_surrogate: "is_high c \<Longrightarrow> is_surrogate (unat c)" "is_low c \<Longrightarrow> is_surrogate (unat c)"
  by (auto simp: is_high_def is_low_def is_surrogate_def)

lemma not_surrogate_unit: "\<not> is_high c \<Longrightarrow> \<not> is_low c \<Longrightarrow> \<not> is_surrogate (unat c)"
  by (auto simp: is_high_def is_low_def is_surrogate_def)

lemma encode_rune_length: "length (encode_rune r) \<le> 4"
  by (simp add: encode_rune_def encode3_def)

lemma length_encode3 [simp]: "length (encode3 n) = 3"
  by (simp add: encode3_def)

lemma unit_bytes_simps:
  "is_high c \<Longrightarrow> unit_bytes c = 3" "is_low c \<Longrightarrow> unit_bytes c = 3"
  "\<not> is_high c \<Longrightarrow> \<not> is_low c \<Longrightarrow> unit_bytes c = length (encode_rune (unat c))"
  by (auto simp: unit_bytes_def is_high_def is_low_def is_surrogate_def)

lemma length_decodeWTF16: "length (decodeWTF16 us) \<le> sum_list (map unit_bytes us)"
proof (induction us rule: decodeWTF16.induct)
  case 1
  then show ?case by simp
next
  case (2 c cs)
  have pair: "length (encode_rune (join_pair c d)) \<le> 6" for d
    using encode_rune_length [of "join_pair c d"] by linarith
  show ?case
  proof (cases "is_high c")
    case True
    then show ?thesis
      using 2(1,2) pair by (cases cs) (fastforce simp: unit_bytes_simps add_mono)+
  next
    case False
    with 2(3,4) show ?thesis by (cases "is_low c") (simp_all add: unit_bytes_simps)
  qed
qed

lemma unat_ucast_rune:
  "valid_rune r \<Longrightarrow> unat (ucast (of_nat r :: i32) :: u16) = r mod 0x10000"
  by (simp add: unsigned_ucast_eq unsigned_of_nat take_bit_eq_mod valid_rune_def)

lemma unit_bytes_rune:
  assumes "valid_rune r"
  shows "unit_bytes (ucast (of_nat r :: i32)) \<le> length (encode_rune r)"
    and "0x10000 \<le> r \<Longrightarrow> unit_bytes (ucast (of_nat r :: i32)) < length (encode_rune r)"
proof -
  let ?u = "unat (ucast (of_nat r :: i32) :: u16)"
  have u: "?u = r mod 0x10000" using assms by (rule unat_ucast_rune)
  have small: "r < 0x10000 \<Longrightarrow> unit_bytes (ucast (of_nat r :: i32)) = length (encode_rune r)"
    using assms u by (simp add: unit_bytes_def valid_rune_def)
  have "length (encode_rune n) \<le> 3" if "n < 0x10000" for n
    using that by (simp add: encode_rune_def)
  then have three: "unit_bytes (ucast (of_nat r :: i32)) \<le> 3"
    by (simp add: unit_bytes_def u)
  have big: "0x10000 \<le> r \<Longrightarrow> length (encode_rune r) = 4"
    using assms by (simp add: encode_rune_def valid_rune_def)
  show "unit_bytes (ucast (of_nat r :: i32)) \<le> length (encode_rune r)"
    using small three big by (cases "r < 0x10000") simp_all
  show "0x10000 \<le> r \<Longrightarrow> unit_bytes (ucast (of_nat r :: i32)) < length (encode_rune r)"
    using three big by simp
qed

lemma length_bytes_of_runes_Cons:
  "length (bytes_of_runes (r # rs)) = length (encode_rune r) + length (bytes_of_runes rs)"
  by (simp add: bytes_of_runes_def)

text \<open>What \<open>uint16(v)\<close> leaves of a rune stored as an \<open>int32\<close>.\<close>

abbreviation low_unit :: "nat \<Rightarrow> u16" where
  "low_unit r \<equiv> ucast (of_nat r :: i32)"

lemma sum_unit_bytes:
  "list_all valid_rune rs \<Longrightarrow>
     sum_list (map unit_bytes (map low_unit rs)) \<le> length (bytes_of_runes rs)"
  by (induction rs) (simp_all add: length_bytes_of_runes_Cons add_mono unit_bytes_rune)

lemma sum_unit_bytes_astral:
  "list_all valid_rune rs \<Longrightarrow> r \<in> set rs \<Longrightarrow> 0x10000 \<le> r \<Longrightarrow>
     sum_list (map unit_bytes (map low_unit rs)) < length (bytes_of_runes rs)"
proof (induction rs)
  case Nil
  then show ?case by simp
next
  case (Cons q rs)
  have q: "unit_bytes (low_unit q) \<le> length (encode_rune q)"
    using Cons.prems by (intro unit_bytes_rune) simp
  show ?case
  proof (cases "q = r")
    case True
    then show ?thesis
      using sum_unit_bytes [of rs] unit_bytes_rune(2) [of r] Cons.prems
      by (simp add: length_bytes_of_runes_Cons)
  next
    case False
    with Cons have "sum_list (map unit_bytes (map low_unit rs)) < length (bytes_of_runes rs)"
      by simp
    with q show ?thesis by (simp add: length_bytes_of_runes_Cons)
  qed
qed

lemma length_string_of_runes: "length (string_of_runes rs) = length (bytes_of_runes rs)"
  by (simp add: string_of_runes_def bytes_string_def)

lemma syscall_UTF16ToString_encode:
  assumes "list_all valid_rune rs" and "0 \<notin> set rs"
  shows "syscall_UTF16ToString (utf16_encode rs) = string_of_runes rs"
proof -
  have "takeWhile (\<lambda>c. c \<noteq> 0) (utf16_encode rs) = utf16_encode rs"
    using utf16_encode_no_nul [OF assms] by (auto simp: takeWhile_eq_all_conv)
  then show ?thesis
    unfolding syscall_UTF16ToString_def
    using assms(1) by (simp only: decodeWTF16_wf wf_utf16_encode utf16_decode_encode string_of_runes_def)
qed

lemma of_nat_rune_nonzero: "valid_rune r \<Longrightarrow> r \<noteq> 0 \<Longrightarrow> (of_nat r :: i32) \<noteq> 0"
  by (auto simp: valid_rune_def word_of_nat_eq_0_iff dest: dvd_imp_le)

lemma int32_units_StringZ:
  assumes "list_all valid_rune rs" and "0 \<notin> set rs" and "length rs < 260"
  shows "int32_units (StringZ260I32 (string_of_runes rs)) = map low_unit rs"
proof -
  have "0 \<notin> (of_nat :: nat \<Rightarrow> i32) ` set rs"
    using assms(1,2) of_nat_rune_nonzero by (fastforce simp: list_all_iff)
  with assms show ?thesis
    by (simp add: StringZ_eqs int32_units_eq takeWhile_zpad)
qed

lemma utf16_encode_bmp:
  "list_all valid_rune rs \<Longrightarrow> \<forall>r \<in> set rs. r < 0x10000 \<Longrightarrow>
     map low_unit rs = utf16_encode rs"
proof (induction rs)
  case Nil
  then show ?case by simp
next
  case (Cons r rs)
  then have "utf16_encode_rune r = [of_nat r]"
    by (auto simp: utf16_encode_rune_def valid_rune_def is_surrogate_def)
  moreover have "ucast (of_nat r :: i32) = (of_nat r :: u16)"
    using Cons.prems by (intro word_unat_eq_iff [THEN iffD2])
      (simp add: unat_ucast_rune unat_of_nat_u16)
  ultimately show ?case using Cons by simp
qed

lemma int32_roundtrip_bmp:
  assumes "list_all valid_rune rs" and "0 \<notin> set rs" and "length rs < 260"
    and "\<forall>r \<in> set rs. r < 0x10000"
  shows "int32ToString (StringZ260I32 (string_of_runes rs)) = string_of_runes rs"
  using assms
  by (simp add: int32ToString_def int32_units_StringZ utf16_encode_bmp syscall_UTF16ToString_encode)

lemma int32_shrinks_astral:
  assumes "list_all valid_rune rs" and "0 \<notin> set rs" and "length rs < 260"
    and "r \<in> set rs" and "0x10000 \<le> r"
  shows "length (int32ToString (StringZ260I32 (string_of_runes rs))) < length (string_of_runes rs)"
proof -
  let ?us = "map low_unit rs"
  let ?ts = "takeWhile (\<lambda>c. c \<noteq> 0) ?us"
  have "length (decodeWTF16 ?ts) \<le> sum_list (map unit_bytes ?ts)"
    by (rule length_decodeWTF16)
  also have "\<dots> \<le> sum_list (map unit_bytes ?us)"
    by (metis takeWhile_dropWhile_id le_add1 map_append sum_list_append)
  also have "\<dots> < length (bytes_of_runes rs)"
    using assms by (intro sum_unit_bytes_astral)
  finally show ?thesis
    using assms(1-3)
    by (simp add: int32ToString_def int32_units_StringZ syscall_UTF16ToString_def bytes_string_def
        length_string_of_runes)
qed

section \<open>Reading back the printed event\<close>

lemma event_fields_sorted:
  "sort_key fst (event_fields e) =
     [(''CallerPID'', JInt (sint (CallerPID e))),
      (''CommandLine'', JStr (utf16ToString (CommandLine e))),
      (''EventType'', JStr (utf16ToString (EventType e))),
      (''ImageBase'', JInt (uint (ImageBase e))),
      (''ImageFileName'', JStr (int32ToString (ImageFileName e))),
      (''ImageSize'', JInt (uint (ImageSize e))),
      (''IsCreate'', JInt (sint (IsCreate e))),
      (''Src'', JInt (sint (Src e))),
      (''TargetPID'', JInt (sint (TargetPID e))),
      (''ThreadID'', JInt (sint (ThreadID e)))]"
  by (simp add: event_fields_def)

lemma read_ToJSON:
  "snd (ToJSON e) = None"
  "read_object (fst (ToJSON e)) =
     Some (map (\<lambda>(k, v). (k, valid_text v)) (sort_key fst (event_fields e)))"
  using read_json_marshal_map [of "event_fields e"]
  by (simp_all add: ToJSON_def json_Marshal_def event_fields_sorted) (simp add: event_fields_def)

section \<open>Properties\<close>

text \<open>C30. A name put into the \<open>int32\<close> buffer of an event and read back as the agent
  reads it is the same name exactly when no character lies outside the Basic Multilingual Plane: the
  narrowing to 16 bits destroys the others.\<close>

theorem int32_name_roundtrip:
  assumes "list_all valid_rune rs" and "0 \<notin> set rs" and "length rs < 260"
  shows "int32ToString (StringZ260I32 (string_of_runes rs)) = string_of_runes rs \<longleftrightarrow>
    (\<forall>r \<in> set rs. r < 0x10000)"
proof
  assume eq: "int32ToString (StringZ260I32 (string_of_runes rs)) = string_of_runes rs"
  show "\<forall>r \<in> set rs. r < 0x10000"
    using int32_shrinks_astral [OF assms] eq by (metis less_irrefl not_less)
qed (rule int32_roundtrip_bmp [OF assms])

theorem int32_name_roundtrip_witness:
  "int32ToString (StringZ260I32 (string_of_runes [0x61, 0xE9])) = string_of_runes [0x61, 0xE9] \<and>
   int32ToString (StringZ260I32 (string_of_runes [0x61, 0x1F600])) \<noteq> string_of_runes [0x61, 0x1F600]"
  using int32_name_roundtrip [of "[0x61, 0xE9]"] int32_name_roundtrip [of "[0x61, 0x1F600]"]
  by (simp add: valid_rune_def is_surrogate_def)

text \<open>C31. Text without a NUL that fits the buffer, its terminator included, is read
  back unchanged from both kinds of UTF-16 buffers, characters outside the Basic Multilingual Plane
  included.\<close>

theorem u16_text_roundtrip:
  assumes "list_all valid_rune rs" and "0 \<notin> set rs"
  shows "(length (utf16_encode rs) < 260 \<longrightarrow>
      utf16ToString (StringZ260U16 (string_of_runes rs)) = string_of_runes rs) \<and>
    (length (utf16_encode rs) < 1024 \<longrightarrow>
      utf16ToString (StringZ1024U16 (string_of_runes rs)) = string_of_runes rs)"
  using assms syscall_UTF16ToString_zpad [OF assms]
  by (simp add: utf16ToString_eq StringZ_eqs)

theorem u16_text_roundtrip_witness:
  "utf16ToString (StringZ260U16 (string_of_runes [0x68, 0x1F600])) = string_of_runes [0x68, 0x1F600]"
  using u16_text_roundtrip [of "[0x68, 0x1F600]"]
  by (simp add: valid_rune_def is_surrogate_def utf16_encode_def utf16_encode_rune_def)

text \<open>Whatever the string and whatever the buffer held before, \<open>StringZInto\<close>
  leaves the longest prefix of the string's runes, or of its UTF-16 code units, that leaves room
  for one zero, and zeros after it; the buffer keeps its length and ends with a zero.\<close>

lemma StringZInto_terminated:
  assumes "1 < length dst" and "1 < length dst'"
  shows "StringZInto_i32 dst s =
      take (length dst - 1) (map of_nat (runes_of s)) @
      replicate (length dst - min (length dst - 1) (length (runes_of s))) 0 \<and>
    StringZInto_u16 dst' s =
      take (length dst' - 1) (utf16_encode (runes_of s)) @
      replicate (length dst' - min (length dst' - 1) (length (utf16_encode (runes_of s)))) 0 \<and>
    last (StringZInto_i32 dst s) = 0 \<and> last (StringZInto_u16 dst' s) = 0"
proof -
  have n: "0 < length dst" "0 < length dst'" using assms by linarith+
  have "last (StringZInto_i32 dst s) = 0" "last (StringZInto_u16 dst' s) = 0"
    using assms by (simp_all add: StringZInto_i32_eq StringZInto_u16_eq last_zpad [OF n(1)]
        last_zpad [OF n(2)])
  then show ?thesis
    using assms by (simp add: StringZInto_i32_eq StringZInto_u16_eq zpad_def min.commute)
qed

text \<open>C32. The agent's \<open>ToJSON\<close> never fails, and a JSON reader finds the ten
  fields of the event, in the order of their names: the numbers exactly, and of each text what is
  valid UTF-8, with the replacement character for the rest.\<close>

theorem ToJSON_reads_back:
  "snd (ToJSON e) = None \<and>
   read_object (fst (ToJSON e)) = Some
     [(''CallerPID'', JInt (sint (CallerPID e))),
      (''CommandLine'', JStr (to_valid_utf8 (utf16ToString (CommandLine e)))),
      (''EventType'', JStr (to_valid_utf8 (utf16ToString (EventType e)))),
      (''ImageBase'', JInt (uint (ImageBase e))),
      (''ImageFileName'', JStr (to_valid_utf8 (int32ToString (ImageFileName e)))),
      (''ImageSize'', JInt (uint (ImageSize e))),
      (''IsCreate'', JInt (sint (IsCreate e))),
      (''Src'', JInt (sint (Src e))),
      (''TargetPID'', JInt (sint (TargetPID e))),
      (''ThreadID'', JInt (sint (ThreadID e)))]"
  by (simp add: read_ToJSON event_fields_sorted)

end
