(* ===== verification/Resources.thy ===== *)
theory Resources
  imports Main
begin

text \<open>
  What a sequence of system calls does to the resources it handles (handles, references, ports,
  registrations). A kind of calls says which resource a call acquires, which it releases and which
  it needs to be held; \<open>track\<close> follows the held resources through a sequence of calls. The contract
  of a function that gives back all it takes, on every path, is the locale \<open>scoped\<close>; the agent's
  Windows helpers, the injected DLL and the driver are interpreted by it.
\<close>

definition track_call ::
  "('c \<Rightarrow> 'h option) \<Rightarrow> ('c \<Rightarrow> 'h option) \<Rightarrow> ('c \<Rightarrow> 'h option) \<Rightarrow> 'h list \<Rightarrow> 'c \<Rightarrow> 'h list option" where
  "track_call acq rel use hs c =
     (if (case use c of Some h \<Rightarrow> h \<notin> set hs | None \<Rightarrow> False) then None
      else case acq c of
             Some h \<Rightarrow> Some (h # hs)
           | None \<Rightarrow> (case rel c of Some h \<Rightarrow> Some (remove1 h hs) | None \<Rightarrow> Some hs))"

text \<open>The resources held after the calls, \<open>None\<close> when a call needs one that is not held.\<close>

fun track ::
  "('c \<Rightarrow> 'h option) \<Rightarrow> ('c \<Rightarrow> 'h option) \<Rightarrow> ('c \<Rightarrow> 'h option) \<Rightarrow> 'h list \<Rightarrow> 'c list \<Rightarrow> 'h list option" where
  "track acq rel use hs [] = Some hs"
| "track acq rel use hs (c # cs) =
     (case track_call acq rel use hs c of None \<Rightarrow> None | Some hs' \<Rightarrow> track acq rel use hs' cs)"

lemma track_append:
  "track acq rel use hs (xs @ ys) =
     (case track acq rel use hs xs of None \<Rightarrow> None | Some hs' \<Rightarrow> track acq rel use hs' ys)"
  by (induction xs arbitrary: hs) (auto split: option.splits)

text \<open>Calls that only use a held resource.\<close>

lemma track_uses:
  assumes "\<forall>c \<in> set cs. acq c = None \<and> rel c = None \<and> (\<forall>h. use c = Some h \<longrightarrow> h \<in> set hs)"
  shows "track acq rel use hs cs = Some hs"
  using assms by (induction cs) (auto simp: track_call_def split: option.splits)

locale scoped =
  fixes acq rel use :: "'c \<Rightarrow> 'h option" and calls :: "'env \<Rightarrow> 'c list"
  assumes leaves_as_found: "track acq rel use hs (calls env) = Some hs"
begin

lemma repeated: "track acq rel use hs (concat (map calls envs)) = Some hs"
  by (induction envs) (simp_all add: track_append leaves_as_found)

lemma within: "track acq rel use hs (xs @ calls env @ ys) = track acq rel use hs (xs @ ys)"
  by (simp add: track_append leaves_as_found split: option.splits)

end

end
