(* ===== verification/Agent_Windows.thy ===== *)
theory Agent_Windows
  imports Event_Text Resources
begin

text \<open>
  The agent's helpers around Windows: the module scanner (\<^verbatim>\<open>DLLScanner.go\<close>), the DLL injector
  (\<^verbatim>\<open>Injector.go\<close>) and the event-log switch (\<^verbatim>\<open>ETWConsumer.go\<close>). Every system call is a parameter
  (a field of an environment record that says what the call returns), and every function returns,
  beside its result, the sequence of calls it made, in order, the deferred ones included. That
  acquired handles are released is the contract \<open>scoped\<close>, interpreted for each of them.
\<close>

datatype os_call =
    OpenProcessToken handle
  | LookupPrivilegeValue string
  | AdjustTokenPrivileges handle
  | CreateToolhelp32Snapshot u32 u32 handle
  | Module32FirstW handle nat
  | Module32NextW handle nat
  | OpenProcess u32 handle
  | VirtualAllocEx handle nat uintptr
  | WriteProcessMemory handle uintptr "u8 list"
  | GetProcAddress string
  | CreateRemoteThread handle uintptr uintptr handle
  | WaitForSingleObject handle
  | GetExitCodeThread handle
  | RegCreateKey string handle
  | RegGetInteger handle string
  | RegSetDWord handle string u32
  | CloseHandle handle

fun acquired :: "os_call \<Rightarrow> handle option" where
  "acquired (OpenProcessToken h) = Some h"
| "acquired (CreateToolhelp32Snapshot f p h) = Some h"
| "acquired (OpenProcess p h) = Some h"
| "acquired (CreateRemoteThread p s a h) = Some h"
| "acquired (RegCreateKey k h) = Some h"
| "acquired _ = None"

fun released :: "os_call \<Rightarrow> handle option" where
  "released (CloseHandle h) = Some h"
| "released _ = None"

fun used :: "os_call \<Rightarrow> handle option" where
  "used (AdjustTokenPrivileges h) = Some h"
| "used (Module32FirstW h n) = Some h"
| "used (Module32NextW h n) = Some h"
| "used (VirtualAllocEx h n a) = Some h"
| "used (WriteProcessMemory h a bs) = Some h"
| "used (CreateRemoteThread h s a th) = Some h"
| "used (WaitForSingleObject h) = Some h"
| "used (GetExitCodeThread h) = Some h"
| "used (RegGetInteger h n) = Some h"
| "used (RegSetDWord h n v) = Some h"
| "used (CloseHandle h) = Some h"
| "used _ = None"

text \<open>The handles open after a sequence of calls, given those open before; \<open>None\<close> when a call uses
  or closes a handle that is not open.\<close>

abbreviation handle_calls :: "handle list \<Rightarrow> os_call list \<Rightarrow> handle list option" where
  "handle_calls \<equiv> track acquired released used"

section \<open>The privilege\<close>

record token_env =
  open_token :: "string + handle"
  lookup_privilege :: "string \<Rightarrow> string + u64"
  adjust_privileges :: "handle \<Rightarrow> u64 \<Rightarrow> string option"

definition SE_DEBUG_NAME :: string where "SE_DEBUG_NAME = ''SeDebugPrivilege''"

definition enableSeDebugPrivilege :: "token_env \<Rightarrow> string option \<times> os_call list" where
  "enableSeDebugPrivilege env =
     (case open_token env of
        Inl err \<Rightarrow> (Some err, [])
      | Inr hTok \<Rightarrow>
          (case lookup_privilege env SE_DEBUG_NAME of
             Inl err \<Rightarrow> (Some err,
               [OpenProcessToken hTok, LookupPrivilegeValue SE_DEBUG_NAME, CloseHandle hTok])
           | Inr luid \<Rightarrow> (adjust_privileges env hTok luid,
               [OpenProcessToken hTok, LookupPrivilegeValue SE_DEBUG_NAME,
                AdjustTokenPrivileges hTok, CloseHandle hTok])))"

section \<open>The module scanner\<close>

record ModuleInfo =
  Name :: string
  Path :: string
  Base :: uintptr
  Size :: u32

record moduleEntry32W =
  EntrySize :: u32
  ModuleID :: u32
  ProcessID :: u32
  GlblcntUsage :: u32
  ProccntUsage :: u32
  ModBaseAddr :: uintptr
  ModBaseSize :: u32
  hModule :: handle
  SzModule :: "u16 list"
  SzExePath :: "u16 list"

definition moduleEntry32W_shape :: "field_shape list" where
  "moduleEntry32W_shape = [shape_u32, shape_u32, shape_u32, shape_u32, shape_u32, shape_u64,
     shape_u32, shape_u64, shape_array 256 shape_u16, shape_array 260 shape_u16]"

definition TH32CS_SNAPMODULE :: u32 where "TH32CS_SNAPMODULE = 0x00000008"
definition TH32CS_SNAPMODULE32 :: u32 where "TH32CS_SNAPMODULE32 = 0x00000010"

text \<open>The calls on a snapshot: its handle and the error the call reports with it, then a first and
  a next entry, over the state \<open>'s\<close> of the enumeration. \<open>UTF16ToString\<close> is the one of
  \<open>golang.org/x/sys/windows\<close>.\<close>

record 's snapshot_env =
  token_calls :: token_env
  create_snapshot :: "u32 \<Rightarrow> u32 \<Rightarrow> handle \<times> string option"
  module_first :: "u32 \<Rightarrow> string option + moduleEntry32W \<times> 's"
  module_next :: "'s \<Rightarrow> (moduleEntry32W \<times> 's) option"
  utf16_to_string :: "u16 list \<Rightarrow> string"

datatype scan_error = SnapshotError string | SnapshotFailed | FirstError string | FirstFailed

definition module_info :: "(u16 list \<Rightarrow> string) \<Rightarrow> moduleEntry32W \<Rightarrow> ModuleInfo" where
  "module_info UTF16ToString me =
     \<lparr>Name = UTF16ToString (SzModule me), Path = UTF16ToString (SzExePath me),
      Base = ModBaseAddr me, Size = ModBaseSize me\<rparr>"

text \<open>The loop over the entries: the modules appended and the calls made, \<open>None\<close> when the fuel does
  not reach the end of the enumeration.\<close>

fun module_loop ::
  "nat \<Rightarrow> 's snapshot_env \<Rightarrow> handle \<Rightarrow> moduleEntry32W \<Rightarrow> 's \<Rightarrow> (ModuleInfo list \<times> os_call list) option"
where
  "module_loop 0 env snap me s = None"
| "module_loop (Suc fuel) env snap me s =
     (let m = module_info (utf16_to_string env) me;
          call = Module32NextW snap (go_sizeof moduleEntry32W_shape) in
      case module_next env s of
        None \<Rightarrow> Some ([m], [call])
      | Some (me', s') \<Rightarrow>
          map_option (\<lambda>(ms, cs). (m # ms, call # cs)) (module_loop fuel env snap me' s'))"

definition GetProcessModules ::
  "nat \<Rightarrow> 's snapshot_env \<Rightarrow> u32 \<Rightarrow> ((scan_error + ModuleInfo list) \<times> os_call list) option" where
  "GetProcessModules fuel env pid =
     (let pre = snd (enableSeDebugPrivilege (token_calls env));
          flags = TH32CS_SNAPMODULE OR TH32CS_SNAPMODULE32;
          (snap, err) = create_snapshot env flags pid in
      if snap = InvalidHandle
      then Some (Inl (case err of Some e \<Rightarrow> SnapshotError e | None \<Rightarrow> SnapshotFailed), pre)
      else let opened = pre @ [CreateToolhelp32Snapshot flags pid snap,
                               Module32FirstW snap (go_sizeof moduleEntry32W_shape)] in
        case module_first env pid of
          Inl e1 \<Rightarrow> Some (Inl (case e1 of Some e \<Rightarrow> FirstError e | None \<Rightarrow> FirstFailed),
                         opened @ [CloseHandle snap])
        | Inr (me, s) \<Rightarrow>
            map_option (\<lambda>(ms, cs). (Inr ms, opened @ cs @ [CloseHandle snap]))
              (module_loop fuel env snap me s))"

text \<open>The event sent for one module.\<close>

definition dll_event :: "ModuleInfo \<Rightarrow> ACEvent" where
  "dll_event m =
     \<lparr>Src = 1, EventType = StringZ260U16 ''DLLScan'', CallerPID = 0, TargetPID = 0, ThreadID = 0,
      ImageFileName = StringZ260I32 (Path m), CommandLine = StringZ1024U16 '''', IsCreate = 0,
      ImageBase = Base m, ImageSize = Size m\<rparr>"

text \<open>The events sent to \<open>EventChannel\<close>; a failed scan prints the error and sends none.\<close>

definition executeDLLScan :: "nat \<Rightarrow> 's snapshot_env \<Rightarrow> i32 \<Rightarrow> (ACEvent list \<times> os_call list) option" where
  "executeDLLScan fuel env pid =
     (case GetProcessModules fuel env pid of
        None \<Rightarrow> None
      | Some (Inl err, calls) \<Rightarrow> Some ([], calls)
      | Some (Inr mods, calls) \<Rightarrow> Some (map dll_event mods, calls))"

section \<open>The injector\<close>

text \<open>\<open>utf16_from_string\<close> is \<open>windows.UTF16FromString\<close>, which appends a terminating NUL and refuses a
  string with a NUL inside. A failed call reports its error beside a zero result.\<close>

record inject_env =
  open_process :: "u32 \<Rightarrow> string + handle"
  utf16_from_string :: "string \<Rightarrow> string + u16 list"
  virtual_alloc :: "handle \<Rightarrow> nat \<Rightarrow> uintptr \<times> string"
  write_memory :: "handle \<Rightarrow> uintptr \<Rightarrow> u8 list \<Rightarrow> string option"
  get_proc_address :: "string \<Rightarrow> string + uintptr"
  create_remote_thread :: "handle \<Rightarrow> uintptr \<Rightarrow> uintptr \<Rightarrow> handle \<times> string"
  get_exit_code :: "handle \<Rightarrow> uintptr \<times> u32"

datatype inject_error = CallError string | LoadLibraryFailed u32

definition after_thread :: "inject_env \<Rightarrow> handle \<Rightarrow> handle \<Rightarrow> inject_error option \<times> os_call list" where
  "after_thread env hProc hThread =
     (let (ok, exitcode) = get_exit_code env hThread in
      (if ok = 0 \<or> exitcode = 0 then Some (LoadLibraryFailed exitcode) else None,
       [WaitForSingleObject hThread, GetExitCodeThread hThread,
        CloseHandle hThread, CloseHandle hProc]))"

definition injectDLLIntoPID :: "inject_env \<Rightarrow> int \<Rightarrow> string \<Rightarrow> inject_error option \<times> os_call list" where
  "injectDLLIntoPID env pid dllPath =
     (case open_process env (of_int pid) of
        Inl err \<Rightarrow> (Some (CallError err), [])
      | Inr hProc \<Rightarrow>
          let c1 = [OpenProcess (of_int pid) hProc] in
          (case utf16_from_string env dllPath of
             Inl err \<Rightarrow> (Some (CallError err), c1 @ [CloseHandle hProc])
           | Inr pathW \<Rightarrow>
               let nbytes = length pathW * 2;
                   (r1, e) = virtual_alloc env hProc nbytes;
                   c2 = c1 @ [VirtualAllocEx hProc nbytes r1] in
               if r1 = 0 then (Some (CallError e), c2 @ [CloseHandle hProc])
               else
                 let bytes = take nbytes (enc_array enc_u16 pathW);
                     c3 = c2 @ [WriteProcessMemory hProc r1 bytes] in
                 (case write_memory env hProc r1 bytes of
                    Some err \<Rightarrow> (Some (CallError err), c3 @ [CloseHandle hProc])
                  | None \<Rightarrow>
                      let c4 = c3 @ [GetProcAddress ''LoadLibraryW''] in
                      (case get_proc_address env ''LoadLibraryW'' of
                         Inl err \<Rightarrow> (Some (CallError err), c4 @ [CloseHandle hProc])
                       | Inr loadlibW \<Rightarrow>
                           let (th, e) = create_remote_thread env hProc loadlibW r1 in
                           if th = 0 then (Some (CallError e), c4 @ [CloseHandle hProc])
                           else let (res, cs) = after_thread env hProc th in
                             (res, c4 @ [CreateRemoteThread hProc loadlibW r1 th] @ cs)))))"

section \<open>The event-log switch\<close>

text \<open>The registry package over the state \<open>'r\<close> of the registry.\<close>

record 'r registry_env =
  create_key :: "'r \<Rightarrow> string \<Rightarrow> (string + handle) \<times> 'r"
  get_integer :: "'r \<Rightarrow> handle \<Rightarrow> string \<Rightarrow> string + u64"
  set_dword :: "'r \<Rightarrow> handle \<Rightarrow> string \<Rightarrow> u32 \<Rightarrow> string option \<times> 'r"

datatype etw_error = OpenKeyFailed string | SetEnabledFailed string

definition channel_base :: string where
  "channel_base =
     ''SOFTWARE'' @ [CHR 0x5C] @ ''Microsoft'' @ [CHR 0x5C] @ ''Windows'' @ [CHR 0x5C] @
     ''CurrentVersion'' @ [CHR 0x5C] @ ''WINEVT'' @ [CHR 0x5C] @ ''Channels'' @ [CHR 0x5C]"

definition ensureETWEnabled ::
  "'r registry_env \<Rightarrow> 'r \<Rightarrow> string \<Rightarrow> etw_error option \<times> 'r \<times> os_call list" where
  "ensureETWEnabled env reg channel =
     (let path = channel_base @ channel in
      case create_key env reg path of
        (Inl err, reg1) \<Rightarrow> (Some (OpenKeyFailed err), reg1, [])
      | (Inr k, reg1) \<Rightarrow>
          let c1 = [RegCreateKey path k, RegGetInteger k ''Enabled''] in
          if get_integer env reg1 k ''Enabled'' = Inr 1 then (None, reg1, c1 @ [CloseHandle k])
          else let (serr, reg2) = set_dword env reg1 k ''Enabled'' 1;
                   c2 = c1 @ [RegSetDWord k ''Enabled'' 1, CloseHandle k] in
               case serr of
                 Some err \<Rightarrow> (Some (SetEnabledFailed err), reg2, c2)
               | None \<Rightarrow> (None, reg2, c2))"

section \<open>The handle contract\<close>

lemma privilege_handles: "handle_calls hs (snd (enableSeDebugPrivilege env)) = Some hs"
  by (simp add: enableSeDebugPrivilege_def track_call_def split: sum.splits)

interpretation privilege: scoped acquired released used "\<lambda>env. snd (enableSeDebugPrivilege env)"
  by unfold_locales (rule privilege_handles)

lemma inject_handles: "handle_calls hs (snd (injectDLLIntoPID env pid dllPath)) = Some hs"
  by (simp add: injectDLLIntoPID_def after_thread_def track_call_def Let_def
      split: sum.splits option.splits prod.splits)

interpretation inject: scoped acquired released used "\<lambda>(env, pid, dllPath). snd (injectDLLIntoPID env pid dllPath)"
  by unfold_locales (simp add: inject_handles split: prod.splits)

lemma etw_handles: "handle_calls hs (snd (snd (ensureETWEnabled env reg channel))) = Some hs"
  by (simp add: ensureETWEnabled_def track_call_def Let_def
      split: sum.splits option.splits prod.splits)

interpretation etw: scoped acquired released used "\<lambda>(env, reg, channel). snd (snd (ensureETWEnabled env reg channel))"
  by unfold_locales (simp add: etw_handles split: prod.splits)

section \<open>The scanner\<close>

lemma module_loop_calls:
  "module_loop fuel env snap me s = Some (ms, cs) \<Longrightarrow>
     cs = replicate (length ms) (Module32NextW snap (go_sizeof moduleEntry32W_shape))"
  by (induction fuel arbitrary: me s ms cs)
    (auto simp: Let_def split: option.splits)

lemma next_calls_keep_handles:
  "snap \<in> set hs \<Longrightarrow> handle_calls hs (replicate n (Module32NextW snap k)) = Some hs"
  by (rule track_uses) simp

lemma scan_handles:
  "GetProcessModules fuel env pid = Some (res, calls) \<Longrightarrow> handle_calls hs calls = Some hs"
  by (auto simp: GetProcessModules_def Let_def track_append privilege_handles track_call_def
      next_calls_keep_handles dest!: module_loop_calls
      split: if_splits sum.splits prod.splits option.splits)

definition scan_calls :: "nat \<Rightarrow> 's snapshot_env \<Rightarrow> u32 \<Rightarrow> os_call list" where
  "scan_calls fuel env pid =
     (case GetProcessModules fuel env pid of Some (res, calls) \<Rightarrow> calls | None \<Rightarrow> [])"

interpretation scan: scoped acquired released used "\<lambda>(fuel, env, pid). scan_calls fuel env pid"
  by unfold_locales (auto simp: scan_calls_def scan_handles split: option.splits)

text \<open>An enumeration that ends: the entries \<open>module_next\<close> gives from a state.\<close>

fun walks :: "('s \<Rightarrow> (moduleEntry32W \<times> 's) option) \<Rightarrow> 's \<Rightarrow> moduleEntry32W list \<Rightarrow> bool" where
  "walks nxt s [] = (nxt s = None)"
| "walks nxt s (e # es) = (case nxt s of None \<Rightarrow> False | Some (e', s') \<Rightarrow> e' = e \<and> walks nxt s' es)"

lemma module_loop_all:
  "walks (module_next env) s es \<Longrightarrow> length es < fuel \<Longrightarrow>
     \<exists>cs. module_loop fuel env snap me s =
       Some (map (module_info (utf16_to_string env)) (me # es), cs)"
proof (induction es arbitrary: me s fuel)
  case Nil
  then show ?case by (cases fuel) simp_all
next
  case (Cons e es)
  then obtain s' f where s': "module_next env s = Some (e, s')" "walks (module_next env) s' es"
      and f: "fuel = Suc f" "length es < f"
    by (cases fuel) (auto split: option.splits)
  from Cons.IH [OF s'(2) f(2)] s'(1) f(1) show ?case by fastforce
qed

lemma GetProcessModules_all:
  assumes "create_snapshot env (TH32CS_SNAPMODULE OR TH32CS_SNAPMODULE32) pid = (snap, err)"
    and "snap \<noteq> InvalidHandle" and "module_first env pid = Inr (me, s)"
    and "walks (module_next env) s es" and "length es < fuel"
  shows "\<exists>calls. GetProcessModules fuel env pid =
    Some (Inr (map (module_info (utf16_to_string env)) (me # es)), calls)"
  using assms module_loop_all [OF assms(4,5)]
  by (fastforce simp: GetProcessModules_def Let_def)

lemma moduleEntry32W_size: "go_sizeof moduleEntry32W_shape = 1080"
  by (simp add: go_sizeof_def struct_align_def moduleEntry32W_shape_def shape_array_def align_up_def)

lemma wf_dll_event [simp]: "wf_ACEvent (dll_event m)"
  by (simp add: wf_ACEvent_def dll_event_def)

section \<open>The injector\<close>

lemma inject_success:
  "fst (injectDLLIntoPID env pid dllPath) = None \<longleftrightarrow>
     (\<exists>hProc pathW r1 loadlibW th.
        open_process env (of_int pid) = Inr hProc \<and>
        utf16_from_string env dllPath = Inr pathW \<and>
        fst (virtual_alloc env hProc (length pathW * 2)) = r1 \<and> r1 \<noteq> 0 \<and>
        write_memory env hProc r1 (enc_array enc_u16 pathW) = None \<and>
        get_proc_address env ''LoadLibraryW'' = Inr loadlibW \<and>
        fst (create_remote_thread env hProc loadlibW r1) = th \<and> th \<noteq> 0 \<and>
        fst (get_exit_code env th) \<noteq> 0 \<and> snd (get_exit_code env th) \<noteq> 0)"
  by (auto simp: injectDLLIntoPID_def after_thread_def Let_def mult.commute
      split: sum.splits option.splits prod.splits)


section \<open>The event-log switch\<close>

text \<open>What the registry package promises of a value that was set.\<close>

definition registry_keeps :: "'r registry_env \<Rightarrow> bool" where
  "registry_keeps env \<longleftrightarrow>
     (\<forall>reg k name v reg'. set_dword env reg k name v = (None, reg') \<longrightarrow>
        get_integer env reg' k name = Inr (ucast v))"

lemma scan_wf: "executeDLLScan fuel env pid = Some (evs, calls) \<Longrightarrow> \<forall>ev \<in> set evs. wf_ACEvent ev"
  by (auto simp: executeDLLScan_def split: option.splits prod.splits sum.splits)

section \<open>Properties\<close>

text \<open>The system of a machine on which every call succeeds, for the concrete instances: process 42 has
  two modules.\<close>

definition sample_module :: "string \<Rightarrow> uintptr \<Rightarrow> moduleEntry32W" where
  "sample_module path base =
     \<lparr>EntrySize = 1080, ModuleID = 1, ProcessID = 42, GlblcntUsage = 1, ProccntUsage = 1,
      ModBaseAddr = base, ModBaseSize = 0x1000, hModule = base,
      SzModule = map (\<lambda>c. of_nat (of_char c)) path, SzExePath = map (\<lambda>c. of_nat (of_char c)) path\<rparr>"

definition sample_scan_env :: "nat snapshot_env" where
  "sample_scan_env =
     \<lparr>token_calls = \<lparr>open_token = Inr 3, lookup_privilege = (\<lambda>_. Inr 20), adjust_privileges = (\<lambda>_ _. None)\<rparr>,
      create_snapshot = (\<lambda>_ _. (9, None)),
      module_first = (\<lambda>_. Inr (sample_module ''a.exe'' 0x400000, 0)),
      module_next = (\<lambda>n. if n = 0 then Some (sample_module ''b.dll'' 0x500000, 1) else None),
      utf16_to_string = syscall_UTF16ToString\<rparr>"

text \<open>C19. When the snapshot and its first entry are obtained, the scan ends,
  and sends one event per module of the process, in the order of the enumeration: for the first
  entry and for each that \<open>Module32NextW\<close> yields before it fails, with the module's path, base
  address and size.\<close>

theorem scan_reports_every_module:
  assumes "create_snapshot env (TH32CS_SNAPMODULE OR TH32CS_SNAPMODULE32) pid = (snap, err)"
    and "snap \<noteq> InvalidHandle" and "module_first env pid = Inr (me, s)"
    and "walks (module_next env) s es" and "length es < fuel"
  shows "\<exists>calls. executeDLLScan fuel env pid =
    Some (map (\<lambda>e. zero_ACEvent\<lparr>Src := UM, EventType := StringZ260U16 ''DLLScan'',
                     ImageFileName := StringZ260I32 (utf16_to_string env (SzExePath e)),
                     ImageBase := ModBaseAddr e, ImageSize := ModBaseSize e\<rparr>) (me # es), calls)"
proof -
  have "StringZ1024U16 '''' = replicate 1024 0"
    by (simp add: StringZ_eqs zpad_def runes_of_def string_bytes_def utf16_encode_def)
  then have "dll_event (module_info (utf16_to_string env) e) =
      zero_ACEvent\<lparr>Src := UM, EventType := StringZ260U16 ''DLLScan'',
        ImageFileName := StringZ260I32 (utf16_to_string env (SzExePath e)),
        ImageBase := ModBaseAddr e, ImageSize := ModBaseSize e\<rparr>" for e
    by (simp add: dll_event_def zero_ACEvent_def UM_def module_info_def)
  with GetProcessModules_all [OF assms] show ?thesis
    by (auto simp: executeDLLScan_def)
qed

theorem scan_reports_every_module_witness:
  "\<exists>evs calls. executeDLLScan 2 sample_scan_env 42 = Some (evs, calls) \<and>
    map ImageBase evs = [0x400000, 0x500000]"
  using scan_reports_every_module [of sample_scan_env 42 9 None "sample_module ''a.exe'' 0x400000" 0
      "[sample_module ''b.dll'' 0x500000]" 2]
  by (auto simp: sample_scan_env_def InvalidHandle_def sample_module_def)

text \<open>A scan that fails sends no event, and it fails exactly when the
  snapshot or its first entry cannot be had; that the debug privilege could not be enabled makes no
  difference.\<close>

lemma scan_failure_sends_nothing:
  "(case create_snapshot env (TH32CS_SNAPMODULE OR TH32CS_SNAPMODULE32) pid of (snap, err) \<Rightarrow>
      snap = InvalidHandle \<or> (\<exists>e. module_first env pid = Inl e)) \<longleftrightarrow>
   (\<exists>e calls. GetProcessModules fuel env pid = Some (Inl e, calls) \<and>
      executeDLLScan fuel env pid = Some ([], calls))"
  by (auto simp: GetProcessModules_def executeDLLScan_def Let_def split: prod.splits sum.splits)

text \<open>C35. Every function of this part leaves the open handles as it found them on every
  path, errors included: each handle it opened (the token, the snapshot, the process, the remote
  thread, the registry key) is used only while open and closed exactly once.\<close>

theorem handles_released:
  "handle_calls hs (snd (enableSeDebugPrivilege tenv)) = Some hs \<and>
   (case GetProcessModules fuel senv pid of
      None \<Rightarrow> True | Some (res, calls) \<Rightarrow> handle_calls hs calls = Some hs) \<and>
   handle_calls hs (snd (injectDLLIntoPID ienv ipid dllPath)) = Some hs \<and>
   handle_calls hs (snd (snd (ensureETWEnabled renv reg channel))) = Some hs"
proof -
  have "handle_calls hs calls = Some hs" if "GetProcessModules fuel senv pid = Some (res, calls)" for res calls
    using scan.leaves_as_found [of hs "(fuel, senv, pid)"] that by (simp add: scan_calls_def)
  then show ?thesis
    using privilege.leaves_as_found [of hs tenv] inject.leaves_as_found [of hs "(ienv, ipid, dllPath)"]
      etw.leaves_as_found [of hs "(renv, reg, channel)"]
    by (auto split: option.splits)
qed



text \<open>When \<open>ensureETWEnabled\<close> succeeds, the channel's \<open>Enabled\<close> value is 1 for a
  registry that keeps what is set, a value that was 1 is left alone, and a failure to
  set the value is reported.\<close>

lemma etw_enabled:
  assumes "registry_keeps env" and "create_key env reg (channel_base @ channel) = (Inr k, reg1)"
    and "ensureETWEnabled env reg channel = (res, reg2, calls)"
  shows "(res = None \<longrightarrow> get_integer env reg2 k ''Enabled'' = Inr 1) \<and>
    (get_integer env reg1 k ''Enabled'' = Inr 1 \<longrightarrow> res = None \<and> reg2 = reg1) \<and>
    (get_integer env reg1 k ''Enabled'' \<noteq> Inr 1 \<longrightarrow>
       res = map_option SetEnabledFailed (fst (set_dword env reg1 k ''Enabled'' 1)) \<and>
       RegSetDWord k ''Enabled'' 1 \<in> set calls)"
proof -
  have keeps: "get_integer env r' k ''Enabled'' = Inr 1"
    if "set_dword env r k ''Enabled'' 1 = (None, r')" for r r'
    using assms(1) that unfolding registry_keeps_def by fastforce
  show ?thesis
    using assms(2,3) keeps
    by (auto simp: ensureETWEnabled_def Let_def split: option.splits prod.splits if_splits)
qed

end
