(* ===== verification/C_Wide.thy ===== *)
theory C_Wide
  imports AC_Event
begin

text \<open>
  What the C and C++ sources (the driver and the injected DLL) use of the C library: wide-character
  literals, \<open>wcscpy_s\<close>, \<open>wcsncpy_s\<close> with \<open>_TRUNCATE\<close>, and an \<open>int\<close> array handed to them as if it
  were a wide-character buffer.
\<close>

section \<open>The functions\<close>

definition wide :: "string \<Rightarrow> u16 list" where \<comment> \<open>a literal \<open>L"..."\<close>, without its terminator\<close>
  "wide s = map (\<lambda>c. of_nat (of_char c)) s"

text \<open>\<open>wcscpy_s\<close> of a literal, and \<open>wcsncpy_s\<close> with \<open>_TRUNCATE\<close>: into a buffer \<open>dst\<close> declared to have
  \<open>n\<close> characters. A source is the memory readable from its address on, \<open>None\<close> for a null pointer,
  which both reject with an empty string. The copy reads up to the terminator or \<open>n\<close> characters.\<close>

definition wcscpy_s :: "u16 list \<Rightarrow> nat \<Rightarrow> u16 list \<Rightarrow> u16 list" where
  "wcscpy_s dst n lit =
     (if length lit < n then lit @ [0] @ drop (length lit + 1) dst else dst[0 := 0])"

definition wcsncpy_s :: "u16 list \<Rightarrow> nat \<Rightarrow> u16 list option \<Rightarrow> u16 list option" where
  "wcsncpy_s dst n src =
     (case src of
        None \<Rightarrow> Some (dst[0 := 0])
      | Some mem \<Rightarrow>
          let units = takeWhile (\<lambda>c. c \<noteq> 0) mem in
          if n \<le> length units then Some (take (n - 1) units @ [0] @ drop n dst)
          else if length units < length mem then Some (units @ [0] @ drop (length units + 1) dst)
          else None)"

text \<open>An array of \<open>int\<close> passed where a wide-character buffer is expected.\<close>

definition wide_view :: "i32 list \<Rightarrow> u16 list" where
  "wide_view xs = dec_array 2 dec_u16 (2 * length xs) (enc_array enc_u32 xs)"

definition int_view :: "u16 list \<Rightarrow> i32 list" where
  "int_view us = dec_array 4 dec_u32 (length us div 2) (enc_array enc_u16 us)"

section \<open>What they leave in zeroed memory\<close>

lemma enc_zeros: "enc_array enc_u32 (replicate n 0) = replicate (4 * n) 0"
    "enc_array enc_u16 (replicate n 0) = replicate (2 * n) 0"
  by (induction n) (simp_all add: enc_array_def enc_u32_def enc_u16_def eval_nat_numeral)

lemma dec_zeros: "dec_array 2 dec_u16 n (replicate (2 * n) 0) = replicate n 0"
  by (induction n) (simp_all add: dec_u16_def eval_nat_numeral)

lemma wide_view_zeros [simp]: "wide_view (replicate n 0) = replicate (2 * n) 0"
  using dec_zeros [of "2 * n"] by (simp add: wide_view_def enc_zeros)

lemma length_dec_array [simp]: "length (dec_array w dec n bs) = n"
  by (induction n arbitrary: bs) simp_all

lemma length_wide_view [simp]: "length (wide_view xs) = 2 * length xs"
  by (simp add: wide_view_def)

lemma length_int_view [simp]: "length (int_view us) = length us div 2"
  by (simp add: int_view_def)

lemma length_wcscpy_s [simp]: "n \<le> length dst \<Longrightarrow> length (wcscpy_s dst n lit) = length dst"
  by (auto simp: wcscpy_s_def)

lemma wcscpy_s_zeros:
  "length lit < n \<Longrightarrow> n \<le> N \<Longrightarrow> wcscpy_s (replicate N 0) n lit = lit @ replicate (N - length lit) 0"
  by (simp add: wcscpy_s_def Suc_diff_Suc flip: replicate_Suc)

lemma length_wcsncpy_s: "wcsncpy_s dst n src = Some us \<Longrightarrow> 0 < n \<Longrightarrow> n \<le> length dst \<Longrightarrow> length us = length dst"
  by (auto simp: wcsncpy_s_def Let_def split: option.splits if_splits)

text \<open>The copy of a terminated text into zeroed memory, and when the copy reads too far.\<close>

lemma wcsncpy_s_zeros:
  assumes "0 \<notin> set txt" and "0 < n" and "n \<le> N"
  shows "wcsncpy_s (replicate N 0) n (Some (txt @ 0 # rest)) =
    Some (take (n - 1) txt @ replicate (N - length (take (n - 1) txt)) 0)"
proof -
  have tw: "takeWhile (\<lambda>c. c \<noteq> 0) (txt @ 0 # rest) = txt"
    using assms(1) by (simp add: takeWhile_tail takeWhile_append)
  show ?thesis
  proof (cases "n \<le> length txt")
    case True
    with assms(2,3) have "Suc (N - n) = N - (n - 1)" by simp
    with True assms show ?thesis by (simp add: wcsncpy_s_def tw flip: replicate_Suc)
  next
    case False
    with assms(3) have "Suc (N - Suc (length txt)) = N - length txt" by simp
    with False assms show ?thesis by (simp add: wcsncpy_s_def tw flip: replicate_Suc)
  qed
qed

definition reads_too_far :: "nat \<Rightarrow> u16 list option \<Rightarrow> bool" where
  "reads_too_far n src \<longleftrightarrow> (\<exists>mem. src = Some mem \<and> length mem < n \<and> 0 \<notin> set mem)"

lemma wcsncpy_s_faults: "wcsncpy_s dst n src = None \<longleftrightarrow> reads_too_far n src"
proof -
  have tw: "length (takeWhile (\<lambda>c. c \<noteq> 0) m) < length m \<longleftrightarrow> 0 \<in> set m" for m :: "u16 list"
    by (metis (mono_tags, lifting) length_takeWhile_le linorder_le_less_linear nat_less_le
        order_antisym takeWhile_eq_all_conv takeWhile_eq_take take_all_iff)
  have "length (takeWhile (\<lambda>c. c \<noteq> 0) m) = length m" if "0 \<notin> set m" for m :: "u16 list"
    using that tw [of m] length_takeWhile_le [of "\<lambda>c. c \<noteq> 0" m] by linarith
  then show ?thesis
    using tw by (auto simp: wcsncpy_s_def reads_too_far_def Let_def not_le split: option.splits)
qed

lemma wcsncpy_s_faultsD:
  "wcsncpy_s dst n src = None \<Longrightarrow> reads_too_far n src"
  "wcsncpy_s dst n src = Some us \<Longrightarrow> \<not> reads_too_far n src"
  using wcsncpy_s_faults [of dst n src] by auto

end
