(* ===== verification/Kernel_Driver.thy ===== *)
theory Kernel_Driver
  imports C_Wide Event_Text Resources
begin

text \<open>
  The kernel driver (\<^verbatim>\<open>MedusaKernelDriver\<close>): the notification routines that make events
  (\<^verbatim>\<open>NotifyRoutine.c\<close>), the callback that takes rights away from handles to the protected process
  (\<^verbatim>\<open>Callback.c\<close>), the communication port (\<^verbatim>\<open>Coms.c\<close>, \<^verbatim>\<open>ComsWarp.h\<close>), and loading and unloading
  (\<^verbatim>\<open>Main.c\<close>, \<^verbatim>\<open>Minifilter.c\<close>). The kernel's calls are parameters. A routine returns the messages it
  hands to \<open>FltSendMessage\<close>, or \<open>None\<close> where it reads memory it has no right to read. The event
  has the fields of \<open>ACEvent\<close>; that the C declaration has the layout of the Go one is a lemma.
\<close>

section \<open>Status codes\<close>

type_synonym ntstatus = i32

definition STATUS_SUCCESS :: ntstatus where "STATUS_SUCCESS = 0"
definition STATUS_INVALID_PARAMETER :: ntstatus where "STATUS_INVALID_PARAMETER = 0xC000000D"
definition STATUS_NO_MEMORY :: ntstatus where "STATUS_NO_MEMORY = 0xC0000017"

definition NT_SUCCESS :: "ntstatus \<Rightarrow> bool" where
  "NT_SUCCESS st \<longleftrightarrow> 0 \<le> sint st"

section \<open>The driver's state and its messages\<close>

definition UNSET_PID :: i32 where "UNSET_PID = 99133799"

record driver =
  DrvToProtectPID :: i32
  DrvAgentPID :: i32
  client_port :: u64
  flt_port :: u64
  flt_handle :: u64
  g_minifilterHandle :: u64
  callbackRegistrationHandle :: u64

definition initial_driver :: driver where
  "initial_driver = \<lparr>DrvToProtectPID = UNSET_PID, DrvAgentPID = UNSET_PID, client_port = 0,
     flt_port = 0, flt_handle = 0, g_minifilterHandle = 0, callbackRegistrationHandle = 0\<rparr>"

record flt_message =
  msg_filter :: u64
  msg_port :: u64
  msg_data :: "u8 list"
  msg_reply :: "u32 option" \<comment> \<open>the size of the reply buffer\<close>
  msg_timeout :: "int option" \<comment> \<open>in units of 100 ns, negative for a relative time\<close>

text \<open>\<open>FltSendMessage\<close>: its status, the bytes it wrote to the reply buffer, and the size it stored.\<close>

type_synonym flt_send = "flt_message \<Rightarrow> ntstatus \<times> u8 list \<times> u32"

definition MinifltPortSendMessage ::
  "flt_send \<Rightarrow> driver \<Rightarrow> u8 list \<Rightarrow> u8 list option \<Rightarrow> flt_message \<times> ntstatus \<times> u8 list option \<times> u32" where
  "MinifltPortSendMessage FltSendMessage d send_data recv_buffer =
     (case recv_buffer of
        Some rb \<Rightarrow>
          let m = \<lparr>msg_filter = flt_handle d, msg_port = client_port d, msg_data = send_data,
                   msg_reply = Some (of_nat (length rb)), msg_timeout = None\<rparr>;
              (status, reply, size) = FltSendMessage m
          in (m, status, Some (reply @ drop (length reply) rb), size)
      | None \<Rightarrow>
          let m = \<lparr>msg_filter = flt_handle d, msg_port = client_port d, msg_data = send_data,
                   msg_reply = None, msg_timeout = Some (- 10)\<rparr>;
              (status, _, _) = FltSendMessage m
          in (m, status, None, 0))"

definition FpSendRaw ::
  "flt_send \<Rightarrow> driver \<Rightarrow> u8 list \<Rightarrow> u8 list option \<Rightarrow> flt_message \<times> ntstatus \<times> u8 list option \<times> u32" where
  "FpSendRaw FltSendMessage d pSend pReply = MinifltPortSendMessage FltSendMessage d pSend pReply"

text \<open>The text messages: structs with one array of 2048 characters.\<close>

definition BUFFER_UNITS :: nat where "BUFFER_UNITS = 4096 div 2"

definition request :: "u16 list option \<Rightarrow> u8 list option" where
  "request text =
     map_option (enc_array enc_u16)
       (wcsncpy_s (replicate BUFFER_UNITS 0) BUFFER_UNITS (Some (case text of None \<Rightarrow> [0] | Some t \<Rightarrow> t)))"

definition FpNotifyUser :: "flt_send \<Rightarrow> driver \<Rightarrow> u16 list option \<Rightarrow> (flt_message \<times> ntstatus) option" where
  "FpNotifyUser FltSendMessage d text =
     (case request text of
        None \<Rightarrow> None
      | Some req \<Rightarrow> let (m, st, _, _) = MinifltPortSendMessage FltSendMessage d req None in Some (m, st))"

text \<open>The answer is copied from the reply struct; behind it \<open>beyond\<close> is what memory can still be
  read.\<close>

definition FpQueryUser ::
  "flt_send \<Rightarrow> driver \<Rightarrow> u16 list \<Rightarrow> u16 list option \<Rightarrow> u16 list option \<Rightarrow>
     (ntstatus \<times> flt_message list \<times> u16 list option) option" where
  "FpQueryUser FltSendMessage d beyond question outBuf =
     (case outBuf of
        None \<Rightarrow> Some (STATUS_INVALID_PARAMETER, [], None)
      | Some out \<Rightarrow>
          if out = [] then Some (STATUS_INVALID_PARAMETER, [], Some out)
          else case request question of
            None \<Rightarrow> None
          | Some req \<Rightarrow>
              let (m, st, rep, _) = MinifltPortSendMessage FltSendMessage d req (Some (replicate 4096 0));
                  msg = dec_array 2 dec_u16 BUFFER_UNITS (the rep)
              in if NT_SUCCESS st
                 then map_option (\<lambda>out'. (st, [m], Some out')) (wcsncpy_s out (length out) (Some (msg @ beyond)))
                 else Some (st, [m], Some out))"

definition FpAskBlockDecision ::
  "flt_send \<Rightarrow> driver \<Rightarrow> u16 list option \<Rightarrow> bool option \<Rightarrow>
     (ntstatus \<times> flt_message list \<times> bool option) option" where
  "FpAskBlockDecision FltSendMessage d path block =
     (case block of
        None \<Rightarrow> Some (STATUS_INVALID_PARAMETER, [], None)
      | Some b \<Rightarrow>
          (case request path of
             None \<Rightarrow> None
           | Some req \<Rightarrow>
               let (m, st, rep, _) = MinifltPortSendMessage FltSendMessage d req (Some (replicate 4 0))
               in Some (st, [m], Some (if NT_SUCCESS st then dec_u32 (take 4 (the rep)) \<noteq> 0 else b))))"

section \<open>The communication port\<close>

text \<open>The routine reads the context as a struct of three longs without looking at the size it is
  given; reading past the end has no result here.\<close>

definition MinifltPortNotifyRoutine :: "u64 \<Rightarrow> u8 list option \<Rightarrow> driver \<Rightarrow> driver option" where
  "MinifltPortNotifyRoutine connected_client_port connection_context d =
     (let d1 = d\<lparr>client_port := connected_client_port\<rparr> in
      case connection_context of
        None \<Rightarrow> Some d1
      | Some ctx \<Rightarrow>
          if length ctx < 4 then None
          else if dec_u32 (field_at 0 4 ctx) \<noteq> 1 then Some d1
          else if length ctx < 12 then None
          else Some (d1\<lparr>DrvToProtectPID := dec_u32 (field_at 4 4 ctx),
                        DrvAgentPID := dec_u32 (field_at 8 4 ctx)\<rparr>))"

definition MinifltPortDisconnectRoutine :: "driver \<Rightarrow> driver" where
  "MinifltPortDisconnectRoutine d = d"

text \<open>What is left in the output buffer and, where it is stored, the returned length.\<close>

definition MinifltPortMessageRoutine :: "u8 list option \<Rightarrow> u8 list option \<times> u32 option" where
  "MinifltPortMessageRoutine output_buffer =
     (case output_buffer of
        None \<Rightarrow> (None, None)
      | Some out \<Rightarrow>
          if length out = 4096
          then (Some (enc_array enc_u16
                   (wcscpy_s (dec_array 2 dec_u16 BUFFER_UNITS out) BUFFER_UNITS (wide ''Hello, User''))),
                Some (of_nat (length (wide ''Hello, User'') * 2)))
          else (Some out, None))"

section \<open>The notification routines\<close>

record UNICODE_STRING =
  us_Length :: u16
  us_Buffer :: "u16 list option"

record PS_CREATE_NOTIFY_INFO =
  ci_ImageFileName :: "UNICODE_STRING option"
  ci_CommandLine :: "UNICODE_STRING option"

record kernel =
  PsGetCurrentProcessId :: u64
  PsGetCurrentThreadId :: u64
  FltSend :: flt_send
  holes :: padding \<comment> \<open>what the padding of the event variable holds\<close>

text \<open>The C declaration of the event.\<close>

definition driver_ACEvent_shape :: "field_shape list" where
  "driver_ACEvent_shape = [shape_u32, shape_array 260 shape_u16, shape_u32, shape_u32, shape_u32,
     shape_array 260 shape_u32, shape_array 1024 shape_u16, shape_u32, shape_u64, shape_u32]"

definition send_event :: "kernel \<Rightarrow> driver \<Rightarrow> ACEvent \<Rightarrow> flt_message" where
  "send_event k d event =
     fst (FpSendRaw (FltSend k) d (take (go_sizeof driver_ACEvent_shape) (evToBytes (holes k) event)) None)"

definition CreateProcess_event ::
  "kernel \<Rightarrow> u64 \<Rightarrow> PS_CREATE_NOTIFY_INFO option \<Rightarrow> ACEvent option" where
  "CreateProcess_event k ProcessId CreateInfo =
     (let event = zero_ACEvent\<lparr>Src := 0,
            EventType := wcscpy_s (EventType zero_ACEvent) 260 (wide ''CreateProcess''),
            CallerPID := ucast (PsGetCurrentProcessId k), TargetPID := ucast ProcessId,
            ThreadID := ucast (PsGetCurrentThreadId k),
            IsCreate := (if CreateInfo \<noteq> None then 1 else 0),
            ImageBase := 0xffffffffffff, ImageSize := 0xffff\<rparr> in
      case CreateInfo of
        None \<Rightarrow> Some (event\<lparr>ImageFileName :=
          int_view (wcscpy_s (wide_view (ImageFileName event)) 260 (wide ''Terminated''))\<rparr>)
      | Some ci \<Rightarrow>
          (case ci_ImageFileName ci of
             None \<Rightarrow> Some (event\<lparr>
               ImageFileName := int_view (wcscpy_s (wide_view (ImageFileName event)) 260 (wide ''Unknown'')),
               CommandLine := wcscpy_s (CommandLine event) 1024 (wide ''Unknown'')\<rparr>)
           | Some name \<Rightarrow>
               let event1 = event\<lparr>CommandLine := (CommandLine event)[0 := 0],
                                  ImageFileName := (ImageFileName event)[0 := 0]\<rparr> in
               case wcsncpy_s (wide_view (ImageFileName event1)) 260 (us_Buffer name) of
                 None \<Rightarrow> None
               | Some img \<Rightarrow>
                   (case ci_CommandLine ci of
                      None \<Rightarrow> None
                    | Some cl \<Rightarrow>
                        (case wcsncpy_s (CommandLine event1) 1024 (us_Buffer cl) of
                           None \<Rightarrow> None
                         | Some cmd \<Rightarrow>
                             Some (event1\<lparr>ImageFileName := int_view img, CommandLine := cmd\<rparr>)))))"

definition CreateProcessNotifyRoutineEx ::
  "kernel \<Rightarrow> driver \<Rightarrow> u64 \<Rightarrow> PS_CREATE_NOTIFY_INFO option \<Rightarrow> flt_message list option" where
  "CreateProcessNotifyRoutineEx k d ProcessId CreateInfo =
     map_option (\<lambda>event. [send_event k d event]) (CreateProcess_event k ProcessId CreateInfo)"

definition CreateThreadNotifyRoutine ::
  "kernel \<Rightarrow> driver \<Rightarrow> u64 \<Rightarrow> u64 \<Rightarrow> bool \<Rightarrow> flt_message list" where
  "CreateThreadNotifyRoutine k d ProcessId ThreadId Create =
     (if \<not> Create then []
      else if DrvToProtectPID d = UNSET_PID then []
      else if ucast ProcessId \<noteq> DrvToProtectPID d then []
      else
        let event = zero_ACEvent\<lparr>Src := 0,
              EventType := wcscpy_s (EventType zero_ACEvent) 260 (wide ''CreateThread''),
              CallerPID := ucast (PsGetCurrentProcessId k), TargetPID := ucast ProcessId,
              ThreadID := ucast ThreadId,
              ImageFileName := int_view (wcscpy_s (wide_view (ImageFileName zero_ACEvent)) 260 []),
              CommandLine := wcscpy_s (CommandLine zero_ACEvent) 1024 [],
              IsCreate := (if Create then 1 else 0),
              ImageBase := 0xffffffffffff, ImageSize := 0xffff\<rparr>
        in [send_event k d event])"

record IMAGE_INFO =
  ii_ImageBase :: u64
  ii_ImageSize :: u64

definition LoadImageNotifyRoutine ::
  "kernel \<Rightarrow> driver \<Rightarrow> UNICODE_STRING option \<Rightarrow> u64 \<Rightarrow> IMAGE_INFO \<Rightarrow> flt_message list option" where
  "LoadImageNotifyRoutine k d FullImageName ProcessId ImageInfo =
     (let event = zero_ACEvent\<lparr>Src := 0,
            EventType := wcscpy_s (EventType zero_ACEvent) 260 (wide ''LoadImage''),
            CallerPID := ucast (PsGetCurrentProcessId k), TargetPID := ucast ProcessId,
            ThreadID := ucast (PsGetCurrentThreadId k), IsCreate := 1,
            CommandLine := wcscpy_s (CommandLine zero_ACEvent) 1024 []\<rparr>;
          img = (case FullImageName of
                   Some name \<Rightarrow> wcsncpy_s (wide_view (ImageFileName event)) 260 (us_Buffer name)
                 | None \<Rightarrow> Some (wcscpy_s (wide_view (ImageFileName event)) 260 (wide ''Unknown''))) in
      map_option (\<lambda>u. [send_event k d (event\<lparr>ImageFileName := int_view u,
          ImageBase := ii_ImageBase ImageInfo, ImageSize := ucast (ii_ImageSize ImageInfo)\<rparr>)]) img)"

section \<open>The handle callback\<close>

definition MINIMAL_ALLOW :: u32 where \<comment> \<open>\<open>PROCESS_QUERY_LIMITED_INFORMATION | SYNCHRONIZE\<close>\<close>
  "MINIMAL_ALLOW = 0x1000 OR 0x100000"

datatype ob_parameters = CreateHandleInformation (DesiredAccess: u32)
  | DuplicateHandleInformation (DesiredAccess: u32)

record OB_PRE_OPERATION_INFORMATION =
  KernelHandle :: bool
  is_process :: bool \<comment> \<open>\<open>ObjectType == *PsProcessType\<close>\<close>
  object_pid :: u64 \<comment> \<open>\<open>PsGetProcessId\<close> of the object\<close>
  ob_params :: ob_parameters

definition CreateCallback ::
  "kernel \<Rightarrow> driver \<Rightarrow> OB_PRE_OPERATION_INFORMATION \<Rightarrow> ob_parameters \<times> flt_message list" where
  "CreateCallback k d oi =
     (if KernelHandle oi \<or> \<not> is_process oi then (ob_params oi, [])
      else if DrvToProtectPID d = UNSET_PID then (ob_params oi, [])
      else
        let pid = object_pid oi in
        if ucast pid \<noteq> DrvToProtectPID d then (ob_params oi, [])
        else
          let callerPID = PsGetCurrentProcessId k;
              params = (if callerPID \<noteq> scast (DrvAgentPID d)
                 then (case ob_params oi of
                         CreateHandleInformation a \<Rightarrow> CreateHandleInformation (a AND MINIMAL_ALLOW)
                       | DuplicateHandleInformation a \<Rightarrow> DuplicateHandleInformation (a AND MINIMAL_ALLOW))
                 else ob_params oi);
              event = zero_ACEvent\<lparr>Src := 0,
                EventType := wcscpy_s (EventType zero_ACEvent) 260 (wide ''HandleOperation''),
                CallerPID := ucast callerPID, TargetPID := ucast pid,
                ThreadID := ucast (PsGetCurrentThreadId k),
                ImageFileName := int_view (wcscpy_s (wide_view (ImageFileName zero_ACEvent)) 260 []),
                CommandLine := wcscpy_s (CommandLine zero_ACEvent) 1024 [],
                IsCreate := 1, ImageBase := 0xffffffffffff, ImageSize := 0xffff\<rparr>
          in (params, [send_event k d event]))"

section \<open>Loading and unloading\<close>

datatype notify_routine = ProcessRoutine | ThreadRoutine | ImageRoutine

text \<open>The calls that take or give back something, with the handle concerned; a call that takes
  something is listed when it succeeds.\<close>

datatype driver_call =
    ExAllocatePool2 nat
  | ObRegisterCallbacks u64
  | ObUnRegisterCallbacks u64
  | FltRegisterFilter u64
  | FltStartFiltering u64
  | FltUnregisterFilter u64
  | PsSetNotifyRoutine notify_routine
  | PsRemoveNotifyRoutine notify_routine
  | FltGetFilterFromName string u64
  | FltObjectDereference u64
  | FltBuildDefaultSecurityDescriptor u64
  | FltFreeSecurityDescriptor u64
  | FltCreateCommunicationPort u64 u64
  | FltCloseCommunicationPort u64

text \<open>What the calls return: a status and the handle stored when it is a success. A call that fails
  stores nothing.\<close>

record load_env =
  allocate_pool :: "nat \<Rightarrow> bool"
  ob_register :: "ntstatus \<times> u64"
  flt_register :: "ntstatus \<times> u64"
  flt_start :: "u64 \<Rightarrow> ntstatus"
  ps_set :: "notify_routine \<Rightarrow> ntstatus"
  filter_from_name :: "string \<Rightarrow> ntstatus \<times> u64"
  build_descriptor :: "ntstatus \<times> u64"
  create_port :: "u64 \<Rightarrow> ntstatus \<times> u64"

definition createRegistration :: "load_env \<Rightarrow> driver \<Rightarrow> ntstatus \<times> driver \<times> driver_call list" where
  "createRegistration env d =
     (let (status, h) = ob_register env in
      if \<not> NT_SUCCESS status then (status, d, [])
      else (STATUS_SUCCESS, d\<lparr>callbackRegistrationHandle := h\<rparr>, [ObRegisterCallbacks h]))"

definition createRegistrationMiniFilter ::
  "load_env \<Rightarrow> driver \<Rightarrow> ntstatus \<times> driver \<times> driver_call list" where
  "createRegistrationMiniFilter env d =
     (let (status, h) = flt_register env in
      if \<not> NT_SUCCESS status then (status, d, [])
      else
        let d1 = d\<lparr>g_minifilterHandle := h\<rparr>; status = flt_start env (g_minifilterHandle d1) in
        (status, d1, [FltRegisterFilter h, FltStartFiltering (g_minifilterHandle d1)] @
           (if \<not> NT_SUCCESS status then [FltUnregisterFilter (g_minifilterHandle d1)] else [])))"

definition registerNotifyRoutine :: "load_env \<Rightarrow> ntstatus \<times> driver_call list" where
  "registerNotifyRoutine env =
     (ps_set env ImageRoutine,
      [PsSetNotifyRoutine r. r \<leftarrow> [ProcessRoutine, ThreadRoutine, ImageRoutine], NT_SUCCESS (ps_set env r)])"

definition unregisterNotifyRoutine :: "driver_call list" where
  "unregisterNotifyRoutine = [PsRemoveNotifyRoutine ProcessRoutine,
     PsRemoveNotifyRoutine ThreadRoutine, PsRemoveNotifyRoutine ImageRoutine]"

definition MinifltPortInitialize ::
  "load_env \<Rightarrow> u64 \<Rightarrow> driver \<Rightarrow> ntstatus \<times> driver \<times> driver_call list" where
  "MinifltPortInitialize env miniflt_handle d =
     (let (status, sd) = build_descriptor env in
      if \<not> NT_SUCCESS status then (status, d, [])
      else
        let (status, p) = create_port env miniflt_handle in
        if \<not> NT_SUCCESS status
        then (status, d, [FltBuildDefaultSecurityDescriptor sd, FltFreeSecurityDescriptor sd])
        else (STATUS_SUCCESS, d\<lparr>flt_port := p, flt_handle := miniflt_handle\<rparr>,
          [FltBuildDefaultSecurityDescriptor sd, FltCreateCommunicationPort miniflt_handle p,
           FltFreeSecurityDescriptor sd]))"

definition BindToExistingFilterAndCreatePort ::
  "load_env \<Rightarrow> string \<Rightarrow> driver \<Rightarrow> ntstatus \<times> driver \<times> driver_call list" where
  "BindToExistingFilterAndCreatePort env FilterName d =
     (let (status, f) = filter_from_name env FilterName in
      if \<not> NT_SUCCESS status then (status, d, [])
      else
        let d1 = d\<lparr>flt_handle := f\<rparr>;
            (status, d2, calls) = MinifltPortInitialize env (flt_handle d1) d1 in
        if \<not> NT_SUCCESS status
        then (status, d2\<lparr>flt_handle := 0\<rparr>,
          FltGetFilterFromName FilterName f # calls @ [FltObjectDereference (flt_handle d2)])
        else (STATUS_SUCCESS, d2, FltGetFilterFromName FilterName f # calls))"

definition MinifltPortFinalize :: "driver \<Rightarrow> driver \<times> driver_call list" where
  "MinifltPortFinalize d =
     (d\<lparr>flt_port := 0, flt_handle := 0\<rparr>,
      (if flt_port d \<noteq> 0 then [FltCloseCommunicationPort (flt_port d)] else []) @
      (if flt_handle d \<noteq> 0 then [FltObjectDereference (flt_handle d)] else []))"

definition DriverEntry :: "load_env \<Rightarrow> u8 list \<Rightarrow> driver \<Rightarrow> ntstatus \<times> driver \<times> driver_call list" where
  "DriverEntry env RegistryPath d =
     (if \<not> allocate_pool env (length RegistryPath) then (STATUS_NO_MEMORY, d, [])
      else
        let (_, d1, c1) = createRegistration env d;
            (_, d2, c2) = createRegistrationMiniFilter env d1;
            (_, c3) = registerNotifyRoutine env;
            (_, d4, c4) = BindToExistingFilterAndCreatePort env ''MedusaKernelDriver'' d2
        in (STATUS_SUCCESS, d4, ExAllocatePool2 (length RegistryPath) # c1 @ c2 @ c3 @ c4))"

definition FilterUnloadCallback :: "driver \<Rightarrow> ntstatus \<times> driver \<times> driver_call list" where
  "FilterUnloadCallback d =
     (let (d1, c1) = MinifltPortFinalize d;
          c2 = (if g_minifilterHandle d1 \<noteq> 0 then [FltUnregisterFilter (g_minifilterHandle d1)] else [])
      in (STATUS_SUCCESS, d1\<lparr>g_minifilterHandle := 0\<rparr>,
          c1 @ c2 @ unregisterNotifyRoutine @ [ObUnRegisterCallbacks (callbackRegistrationHandle d1)]))"

text \<open>What the calls do to the driver's resources.\<close>

datatype driver_resource = Pool | Callbacks u64 | Filter u64 | FilterRef u64 | Port u64
  | Descriptor u64 | Routine notify_routine

fun takes :: "driver_call \<Rightarrow> driver_resource option" where
  "takes (ExAllocatePool2 n) = Some Pool"
| "takes (ObRegisterCallbacks h) = Some (Callbacks h)"
| "takes (FltRegisterFilter h) = Some (Filter h)"
| "takes (PsSetNotifyRoutine r) = Some (Routine r)"
| "takes (FltGetFilterFromName n h) = Some (FilterRef h)"
| "takes (FltBuildDefaultSecurityDescriptor h) = Some (Descriptor h)"
| "takes (FltCreateCommunicationPort f h) = Some (Port h)"
| "takes _ = None"

fun gives :: "driver_call \<Rightarrow> driver_resource option" where
  "gives (ObUnRegisterCallbacks h) = Some (Callbacks h)"
| "gives (FltUnregisterFilter h) = Some (Filter h)"
| "gives (PsRemoveNotifyRoutine r) = Some (Routine r)"
| "gives (FltObjectDereference h) = Some (FilterRef h)"
| "gives (FltFreeSecurityDescriptor h) = Some (Descriptor h)"
| "gives (FltCloseCommunicationPort h) = Some (Port h)"
| "gives _ = None"

text \<open>Removing a notification routine that is not registered is an error the kernel returns; every
  other call needs what it names.\<close>

fun needs :: "driver_call \<Rightarrow> driver_resource option" where
  "needs (PsRemoveNotifyRoutine r) = None"
| "needs (FltStartFiltering h) = Some (Filter h)"
| "needs (FltCreateCommunicationPort f h) = Some (FilterRef f)"
| "needs c = gives c"

abbreviation driver_calls :: "driver_resource list \<Rightarrow> driver_call list \<Rightarrow> driver_resource list option" where
  "driver_calls \<equiv> track takes gives needs"

text \<open>What the driver holds through its port, and its registered routines.\<close>

definition port_resources :: "driver \<Rightarrow> driver_resource list" where
  "port_resources d = (if flt_port d \<noteq> 0 then [Port (flt_port d), FilterRef (flt_handle d)] else [])"

definition routine_resources :: "load_env \<Rightarrow> driver_resource list" where
  "routine_resources env =
     rev (map Routine (filter (\<lambda>r. NT_SUCCESS (ps_set env r)) [ProcessRoutine, ThreadRoutine, ImageRoutine]))"

text \<open>Handles the kernel returns are not null.\<close>

definition real_handles :: "load_env \<Rightarrow> bool" where
  "real_handles env \<longleftrightarrow> snd (flt_register env) \<noteq> 0 \<and> (\<forall>n. snd (filter_from_name env n) \<noteq> 0) \<and>
     (\<forall>f. snd (create_port env f) \<noteq> 0)"

lemma NT_SUCCESS_0 [simp]: "NT_SUCCESS STATUS_SUCCESS"
  by (simp add: NT_SUCCESS_def STATUS_SUCCESS_def)

lemma snd_nonzero: "\<forall>n. snd (g n) \<noteq> 0 \<Longrightarrow> g n = (x, y) \<Longrightarrow> y \<noteq> 0"
  by (metis snd_conv)

lemma bind_calls:
  assumes "BindToExistingFilterAndCreatePort env name d = (st, d', cs)" and "real_handles env"
    and "flt_port d = 0" and "flt_handle d = 0"
  shows "driver_calls hs cs = Some (port_resources d' @ hs)"
    and "flt_port d' \<noteq> 0 \<longleftrightarrow> flt_handle d' \<noteq> 0"
    and "g_minifilterHandle d' = g_minifilterHandle d"
    and "callbackRegistrationHandle d' = callbackRegistrationHandle d"
  using assms
  by (auto simp: BindToExistingFilterAndCreatePort_def MinifltPortInitialize_def real_handles_def
      port_resources_def track_call_def Let_def split: prod.splits if_splits dest: snd_nonzero)

lemma finalize_calls:
  assumes "flt_port d \<noteq> 0 \<longleftrightarrow> flt_handle d \<noteq> 0"
  shows "driver_calls (port_resources d @ hs) (snd (MinifltPortFinalize d)) = Some hs"
  using assms by (auto simp: MinifltPortFinalize_def port_resources_def track_call_def)

lemma register_calls:
  "driver_calls hs (snd (registerNotifyRoutine env)) = Some (routine_resources env @ hs)"
  by (simp add: registerNotifyRoutine_def routine_resources_def track_call_def)

lemma unregister_calls:
  assumes "\<forall>r. Routine r \<notin> set hs"
  shows "driver_calls (routine_resources env @ hs) unregisterNotifyRoutine = Some hs"
  using assms
  by (simp add: unregisterNotifyRoutine_def routine_resources_def track_call_def remove1_idem)

lemma filter_calls:
  assumes "createRegistrationMiniFilter env d = (st, d', cs)" "NT_SUCCESS st"
    and "NT_SUCCESS (fst (flt_register env))"
  shows "driver_calls hs cs = Some (Filter (g_minifilterHandle d') # hs)"
    and "d' = d\<lparr>g_minifilterHandle := snd (flt_register env)\<rparr>"
  using assms
  by (auto simp: createRegistrationMiniFilter_def track_call_def Let_def split: prod.splits if_splits)

text \<open>What the driver holds when it is loaded and its filter runs.\<close>

definition callback_resources :: "load_env \<Rightarrow> driver_resource list" where
  "callback_resources env =
     (if NT_SUCCESS (fst (ob_register env)) then [Callbacks (snd (ob_register env))] else [])"

lemma callback_calls:
  assumes "createRegistration env d = (st, d', cs)"
  shows "driver_calls hs cs = Some (callback_resources env @ hs)"
    and "d' = d\<lparr>callbackRegistrationHandle :=
      (if NT_SUCCESS (fst (ob_register env)) then snd (ob_register env) else callbackRegistrationHandle d)\<rparr>"
  using assms
  by (auto simp: createRegistration_def callback_resources_def track_call_def split: prod.splits if_splits)

definition filter_runs :: "load_env \<Rightarrow> bool" where
  "filter_runs env \<longleftrightarrow> NT_SUCCESS (fst (flt_register env)) \<and>
     NT_SUCCESS (flt_start env (snd (flt_register env)))"

lemma load_calls:
  assumes "DriverEntry env path initial_driver = (st, d, cs)" and "allocate_pool env (length path)"
    and "filter_runs env" and "real_handles env"
  shows "driver_calls [] cs = Some (port_resources d @ routine_resources env @
      Filter (g_minifilterHandle d) # callback_resources env @ [Pool])"
    and "g_minifilterHandle d \<noteq> 0" and "flt_port d \<noteq> 0 \<longleftrightarrow> flt_handle d \<noteq> 0"
    and "callbackRegistrationHandle d =
      (if NT_SUCCESS (fst (ob_register env)) then snd (ob_register env) else 0)"
proof -
  obtain s1 d1 c1 s2 d2 c2 s4 d4 c4
    where 1: "createRegistration env initial_driver = (s1, d1, c1)"
      and 2: "createRegistrationMiniFilter env d1 = (s2, d2, c2)"
      and 4: "BindToExistingFilterAndCreatePort env ''MedusaKernelDriver'' d2 = (s4, d4, c4)"
    using prod_cases3 by metis
  have cs: "cs = ExAllocatePool2 (length path) # c1 @ c2 @ snd (registerNotifyRoutine env) @ c4" "d = d4"
    using assms(1,2) 1 2 4 by (simp_all add: DriverEntry_def split: prod.splits)
  have "NT_SUCCESS s2"
    using 2 assms(3) by (auto simp: createRegistrationMiniFilter_def filter_runs_def Let_def split: prod.splits)
  note c2 = filter_calls [OF 2 this assms(3) [unfolded filter_runs_def, THEN conjunct1]]
  note c1 = callback_calls [OF 1]
  have "flt_port d2 = 0" "flt_handle d2 = 0" by (simp_all add: c1 c2 initial_driver_def)
  note c4 = bind_calls [OF 4 assms(4) this]
  show "driver_calls [] cs = Some (port_resources d @ routine_resources env @
      Filter (g_minifilterHandle d) # callback_resources env @ [Pool])"
    using c4(3) c1(1) c2(1) c4(1) by (simp add: cs track_append register_calls track_call_def)
  show "g_minifilterHandle d \<noteq> 0" "flt_port d \<noteq> 0 \<longleftrightarrow> flt_handle d \<noteq> 0"
    using assms(4) c2(2) c4 by (simp_all add: cs real_handles_def)
  show "callbackRegistrationHandle d =
      (if NT_SUCCESS (fst (ob_register env)) then snd (ob_register env) else 0)"
    using c4(4) by (simp add: cs c1(2) c2(2) initial_driver_def)
qed

lemma unload_calls:
  assumes "flt_port d \<noteq> 0 \<longleftrightarrow> flt_handle d \<noteq> 0" and "g_minifilterHandle d \<noteq> 0"
    and "\<forall>r. Routine r \<notin> set hs"
  shows "driver_calls (port_resources d @ routine_resources env @ Filter (g_minifilterHandle d) # hs)
      (snd (snd (FilterUnloadCallback d))) =
    (if Callbacks (callbackRegistrationHandle d) \<in> set hs
     then Some (remove1 (Callbacks (callbackRegistrationHandle d)) hs) else None)"
proof -
  have r: "remove1 (Filter h) (routine_resources env @ Filter h # hs) = routine_resources env @ hs" for h
    by (simp add: routine_resources_def)
  have "snd (snd (FilterUnloadCallback d)) = snd (MinifltPortFinalize d) @
      [FltUnregisterFilter (g_minifilterHandle d)] @ unregisterNotifyRoutine @
      [ObUnRegisterCallbacks (callbackRegistrationHandle d)]"
    using assms(2) by (simp add: FilterUnloadCallback_def MinifltPortFinalize_def)
  then show ?thesis
    using finalize_calls [OF assms(1)] unregister_calls [OF assms(3), of env]
    by (simp add: track_append track_call_def r)
qed

section \<open>The events the routines send\<close>

lemma driver_layout: "driver_ACEvent_shape = ACEvent_shape" "go_sizeof driver_ACEvent_shape = 3648"
proof -
  show l: "driver_ACEvent_shape = ACEvent_shape"
    by (simp add: driver_ACEvent_shape_def ACEvent_shape_def)
  show "go_sizeof driver_ACEvent_shape = 3648"
    using ACEvent_size_eq unfolding l ACEvent_size_def .
qed

text \<open>A message that carries an event to the agent.\<close>

definition event_message :: "kernel \<Rightarrow> driver \<Rightarrow> ACEvent \<Rightarrow> flt_message" where
  "event_message k d ev = \<lparr>msg_filter = flt_handle d, msg_port = client_port d,
     msg_data = evToBytes (holes k) ev, msg_reply = None, msg_timeout = Some (- 10)\<rparr>"

lemma send_event_eq:
  "wf_ACEvent ev \<Longrightarrow> send_event k d ev = event_message k d ev"
  by (simp add: send_event_def FpSendRaw_def MinifltPortSendMessage_def event_message_def driver_layout(2) Let_def
      split: prod.splits)

text \<open>Every other element, from the first.\<close>

fun evens :: "'a list \<Rightarrow> 'a list" where
  "evens [] = []"
| "evens [x] = [x]"
| "evens (x # y # xs) = x # evens xs"


lemma packed_pair:
  "ucast (dec_u32 (enc_u16 a @ enc_u16 b)) = a"
  "dec_u32 (enc_u16 a @ enc_u16 b) = 0 \<longleftrightarrow> a = 0 \<and> b = 0"
proof -
  show "ucast (dec_u32 (enc_u16 a @ enc_u16 b)) = a"
    unfolding dec_u32_def using u16.dec_enc [of a]
    by (simp add: ucast_le_word_prefix dec_u16_def)
  have z: "enc_u16 c = replicate 2 0 \<longleftrightarrow> c = 0" for c
    using u16.dec_enc [of c] u16.dec_enc [of 0] by (auto simp: enc_u16_def dec_u16_def eval_nat_numeral)
  have "replicate 4 (0::u8) = replicate 2 0 @ replicate 2 0" by (simp add: eval_nat_numeral)
  then show "dec_u32 (enc_u16 a @ enc_u16 b) = 0 \<longleftrightarrow> a = 0 \<and> b = 0"
    unfolding dec_u32_def by (simp add: le_word_eq_0 z)
qed

lemma int32_units_zeros:
  "k = 2 * n \<Longrightarrow> int32_units (dec_array 4 dec_u32 n (enc_array enc_u16 (replicate k 0))) = []"
  using packed_pair(2) [of 0 0] by (cases n) (simp_all add: enc_array_def)

lemma int32_units_packed:
  "length us + k = 2 * n \<Longrightarrow> 0 \<notin> set us \<Longrightarrow>
     int32_units (dec_array 4 dec_u32 n (enc_array enc_u16 (us @ replicate k 0))) = evens us"
proof (induction us arbitrary: n rule: evens.induct)
  case 1
  then show ?case by (simp add: int32_units_zeros)
next
  case (2 x)
  then obtain m j where nk: "n = Suc m" "k = Suc j" by (cases n; cases k) auto
  with 2 have "int32_units (dec_array 4 dec_u32 m (enc_array enc_u16 (replicate j 0))) = []"
    by (intro int32_units_zeros) simp
  with 2 packed_pair [of x 0] nk show ?case
    by (simp add: enc_array_def)
next
  case (3 x y xs)
  then obtain m where m: "n = Suc m" by (cases n) auto
  with 3 packed_pair [of x y] show ?case
    by (simp add: enc_array_def)
qed

lemma length_evens: "length (evens xs) = (length xs + 1) div 2"
  by (induction xs rule: evens.induct) simp_all

text \<open>The image name of an event, read back by the agent.\<close>

lemma int32_units_view:
  assumes "length us + k = 520" and "0 \<notin> set us"
  shows "int32_units (int_view (us @ replicate k 0)) = evens us"
  using int32_units_packed [of us k 260] assms by (simp add: int_view_def)

text \<open>Of a name of \<open>n\<close> characters the agent's decoder gets \<open>(n + 1) div 2\<close>.\<close>

lemma driver_name_halved:
  assumes "0 \<notin> set name" and "length name < 260"
  shows "int32ToString (int_view (name @ replicate (520 - length name) 0)) = syscall_UTF16ToString (evens name) \<and>
    length (int32_units (int_view (name @ replicate (520 - length name) 0))) = (length name + 1) div 2"
  using int32_units_view [of name "520 - length name"] assms by (simp add: int32ToString_def length_evens)

lemma CreateProcess_event_wf: "CreateProcess_event k pid ci = Some ev \<Longrightarrow> wf_ACEvent ev"
  by (auto simp: CreateProcess_event_def wf_ACEvent_def zero_ACEvent_def Let_def dest!: length_wcsncpy_s
      split: option.splits)

text \<open>A named process: what the event holds.\<close>

lemma CreateProcess_event_named:
  assumes "ci_ImageFileName ci = Some n" and "us_Buffer n = Some (name @ 0 # r)" and "0 \<notin> set name"
    and "ci_CommandLine ci = Some c" and "us_Buffer c = Some (cmd @ 0 # r')" and "0 \<notin> set cmd"
  shows "CreateProcess_event k pid (Some ci) = Some \<lparr>Src = 0,
    EventType = wide ''CreateProcess'' @ replicate 247 0, CallerPID = ucast (PsGetCurrentProcessId k),
    TargetPID = ucast pid, ThreadID = ucast (PsGetCurrentThreadId k),
    ImageFileName = int_view (take 259 name @ replicate (520 - length (take 259 name)) 0),
    CommandLine = take 1023 cmd @ replicate (1024 - length (take 1023 cmd)) 0,
    IsCreate = 1, ImageBase = 0xffffffffffff, ImageSize = 0xffff\<rparr>"
proof -
  have z: "(replicate 260 0)[0 := 0 :: i32] = replicate 260 0" "(replicate 1024 0)[0 := 0 :: u16] = replicate 1024 0"
    by (simp_all add: list_update_same_conv)
  have "wcscpy_s (replicate 260 0) 260 (wide ''CreateProcess'') = wide ''CreateProcess'' @ replicate 247 0"
    by (simp add: wcscpy_s_zeros wide_def)
  then show ?thesis
    using assms wcsncpy_s_zeros [OF assms(3), of 260 520 r] wcsncpy_s_zeros [OF assms(6), of 1024 1024 r']
    by (simp add: CreateProcess_event_def zero_ACEvent_def z)
qed

lemma CreateProcess_event_faults:
  "CreateProcess_event k pid CreateInfo = None \<longleftrightarrow>
     (\<exists>ci name. CreateInfo = Some ci \<and> ci_ImageFileName ci = Some name \<and>
        (reads_too_far 260 (us_Buffer name) \<or>
         (case ci_CommandLine ci of None \<Rightarrow> True | Some cl \<Rightarrow> reads_too_far 1024 (us_Buffer cl))))"
  by (auto simp: CreateProcess_event_def Let_def dest: wcsncpy_s_faultsD split: option.splits)

text \<open>Every message the routines send is one event to the connected agent.\<close>

definition sends_event :: "kernel \<Rightarrow> driver \<Rightarrow> flt_message \<Rightarrow> bool" where
  "sends_event k d m \<longleftrightarrow> (\<exists>ev. wf_ACEvent ev \<and> Src ev = KM \<and> m = event_message k d ev)"

lemma sends_event_I: "wf_ACEvent ev \<Longrightarrow> Src ev = KM \<Longrightarrow> sends_event k d (send_event k d ev)"
  by (auto simp: sends_event_def send_event_eq)

lemma CreateProcess_sends: "CreateProcessNotifyRoutineEx k d pid ci = Some ms \<Longrightarrow> \<exists>m. ms = [m] \<and> sends_event k d m"
  by (auto simp: CreateProcessNotifyRoutineEx_def CreateProcess_event_wf KM_def intro!: sends_event_I)
   (auto simp: CreateProcess_event_def zero_ACEvent_def Let_def split: option.splits)

lemma CreateThread_sends: "\<forall>m \<in> set (CreateThreadNotifyRoutine k d pid tid c). sends_event k d m"
  by (auto simp: CreateThreadNotifyRoutine_def Let_def wf_ACEvent_def zero_ACEvent_def KM_def intro!: sends_event_I)

lemma LoadImage_sends: "LoadImageNotifyRoutine k d name pid ii = Some ms \<Longrightarrow> \<exists>m. ms = [m] \<and> sends_event k d m"
  by (auto simp: LoadImageNotifyRoutine_def Let_def wf_ACEvent_def zero_ACEvent_def KM_def
      intro!: sends_event_I dest!: length_wcsncpy_s split: option.splits)

lemma CreateCallback_sends: "\<forall>m \<in> set (snd (CreateCallback k d oi)). sends_event k d m"
  by (auto simp: CreateCallback_def Let_def wf_ACEvent_def zero_ACEvent_def KM_def intro!: sends_event_I)

section \<open>The driver at run time\<close>

text \<open>The calls the kernel makes into the loaded driver, each with the kernel state it is made in, and
  what the driver answers: the messages it sends and, for a handle operation, the rights granted.\<close>

datatype driver_event =
    Connected u64 "u8 list option"
  | Disconnected
  | ProcessNotify u64 "PS_CREATE_NOTIFY_INFO option"
  | ThreadNotify u64 u64 bool
  | ImageNotify "UNICODE_STRING option" u64 IMAGE_INFO
  | HandleOperation OB_PRE_OPERATION_INFORMATION

definition driver_answer ::
  "kernel \<Rightarrow> driver \<Rightarrow> driver_event \<Rightarrow> (driver \<times> flt_message list \<times> u32 option) option" where
  "driver_answer k d e =
     (case e of
        Connected p ctx \<Rightarrow> map_option (\<lambda>d'. (d', [], None)) (MinifltPortNotifyRoutine p ctx d)
      | Disconnected \<Rightarrow> Some (MinifltPortDisconnectRoutine d, [], None)
      | ProcessNotify pid ci \<Rightarrow> map_option (\<lambda>ms. (d, ms, None)) (CreateProcessNotifyRoutineEx k d pid ci)
      | ThreadNotify pid tid c \<Rightarrow> Some (d, CreateThreadNotifyRoutine k d pid tid c, None)
      | ImageNotify name pid ii \<Rightarrow> map_option (\<lambda>ms. (d, ms, None)) (LoadImageNotifyRoutine k d name pid ii)
      | HandleOperation oi \<Rightarrow>
          let (params, ms) = CreateCallback k d oi in Some (d, ms, Some (DesiredAccess params)))"

text \<open>The driver after a sequence of calls, \<open>None\<close> after a fault.\<close>

fun driver_run :: "driver \<Rightarrow> (kernel \<times> driver_event) list \<Rightarrow> driver option" where
  "driver_run d [] = Some d"
| "driver_run d ((k, e) # es) =
     (case driver_answer k d e of None \<Rightarrow> None | Some (d', _, _) \<Rightarrow> driver_run d' es)"

lemma driver_run_append:
  "driver_run d (es @ es') = (case driver_run d es of None \<Rightarrow> None | Some d' \<Rightarrow> driver_run d' es')"
  by (induction d es rule: driver_run.induct) (auto split: option.splits prod.splits)

fun is_connect :: "driver_event \<Rightarrow> bool" where
  "is_connect (Connected p ctx) = True"
| "is_connect _ = False"

text \<open>Only a connection changes the driver.\<close>

lemma driver_answer_keeps: "driver_answer k d e = Some (d', ms, a) \<Longrightarrow> \<not> is_connect e \<Longrightarrow> d' = d"
  by (cases e) (auto simp: driver_answer_def MinifltPortDisconnectRoutine_def split: prod.splits)

lemma driver_run_keeps: "driver_run d es = Some d' \<Longrightarrow> \<forall>(k, e) \<in> set es. \<not> is_connect e \<Longrightarrow> d' = d"
  by (induction d es rule: driver_run.induct) (auto split: option.splits dest!: driver_answer_keeps)

lemma driver_answer_sends:
  "driver_answer k d e = Some (d', ms, a) \<Longrightarrow> m \<in> set ms \<Longrightarrow> sends_event k d m"
proof (cases e)
  case (HandleOperation oi)
  then show "driver_answer k d e = Some (d', ms, a) \<Longrightarrow> m \<in> set ms \<Longrightarrow> sends_event k d m"
    using CreateCallback_sends [of k d oi] by (cases "CreateCallback k d oi") (simp add: driver_answer_def)
qed (auto simp: driver_answer_def CreateThread_sends dest!: CreateProcess_sends LoadImage_sends)

text \<open>What a handle operation on the protected process is granted.\<close>

lemma handle_answer:
  "driver_answer k d (HandleOperation oi) = Some (d', ms, a) \<Longrightarrow>
     a = Some (if \<not> KernelHandle oi \<and> is_process oi \<and> DrvToProtectPID d \<noteq> UNSET_PID \<and>
          ucast (object_pid oi) = DrvToProtectPID d \<and> PsGetCurrentProcessId k \<noteq> scast (DrvAgentPID d)
        then DesiredAccess (ob_params oi) AND MINIMAL_ALLOW else DesiredAccess (ob_params oi))"
  by (cases "ob_params oi") (auto simp: driver_answer_def CreateCallback_def Let_def split: if_splits)

lemma context_bytes:
  "MinifltPortNotifyRoutine p (Some (enc_u32 1 @ enc_u32 a @ enc_u32 b @ rest)) d =
     Some (d\<lparr>client_port := p, DrvToProtectPID := a, DrvAgentPID := b\<rparr>)"
  by (simp add: MinifltPortNotifyRoutine_def field_at_skip field_at_here field_at_all u32.dec_enc)

section \<open>Properties\<close>

text \<open>A thread of a process, for the concrete instances.\<close>

definition sample_kernel :: "u64 \<Rightarrow> kernel" where
  "sample_kernel pid = \<lparr>PsGetCurrentProcessId = pid, PsGetCurrentThreadId = 12,
     FltSend = (\<lambda>_. (STATUS_SUCCESS, [], 0)), holes = (0, 0)\<rparr>"

text \<open>C23. Whatever call the kernel makes into the driver, in whatever state: every message the
  driver sends goes to the filter and the port the driver holds, asks for no reply, and consists of
  the 3648 bytes of a well-formed event that the reader of the agent's declaration reads back, with the
  kernel as its source.\<close>

theorem driver_messages_typed:
  assumes "driver_answer k d e = Some (d', ms, a)" and "m \<in> set ms"
  shows "msg_filter m = flt_handle d \<and> msg_port m = client_port d \<and> msg_reply m = None \<and>
    length (msg_data m) = 3648 \<and> wf_ACEvent (ACEvent_of_bytes (msg_data m)) \<and>
    Src (ACEvent_of_bytes (msg_data m)) = KM"
  using driver_answer_sends [OF assms] by (auto simp: sends_event_def event_message_def)

theorem driver_messages_typed_witness:
  "\<exists>m d' a. driver_answer (sample_kernel 8) initial_driver (ProcessNotify 40 None) = Some (d', [m], a) \<and>
     length (msg_data m) = 3648"
proof -
  obtain m where "driver_answer (sample_kernel 8) initial_driver (ProcessNotify 40 None) = Some (initial_driver, [m], None)"
    by (simp add: driver_answer_def CreateProcessNotifyRoutineEx_def CreateProcess_event_def)
  with driver_messages_typed [OF this] show ?thesis by auto
qed

text \<open>C25. The notification of a new process reads memory it may not read exactly when the
  process has an image name and the memory behind the name ends before a terminator and 260
  characters, or there is no command line, or the memory behind it ends before a terminator and
  1024 characters; in every other case one event is sent.\<close>

theorem process_notification_faults:
  "(CreateProcessNotifyRoutineEx k d pid CreateInfo = None \<longleftrightarrow>
     (\<exists>ci name. CreateInfo = Some ci \<and> ci_ImageFileName ci = Some name \<and>
        (reads_too_far 260 (us_Buffer name) \<or>
         (case ci_CommandLine ci of None \<Rightarrow> True | Some cl \<Rightarrow> reads_too_far 1024 (us_Buffer cl))))) \<and>
   (case CreateProcessNotifyRoutineEx k d pid CreateInfo of None \<Rightarrow> True | Some ms \<Rightarrow> length ms = 1)"
  by (auto simp: CreateProcessNotifyRoutineEx_def CreateProcess_event_faults split: option.splits)

text \<open>C24. A driver whose filter was registered and started gives back, when it is unloaded, all
  it took in loading, whatever else failed: the port, the reference to its filter, the filter, the
  notification routines and the callbacks, each only while it holds it, and before the filter is
  unregistered nothing of the port remains. Two exceptions: the copy of the registry path is never
  freed, and when the callbacks could not be registered unloading unregisters a handle it does not
  have.\<close>

theorem unload_gives_back:
  assumes "DriverEntry env path initial_driver = (st, d, cs)" and "allocate_pool env (length path)"
    and "filter_runs env" and "real_handles env"
    and "FilterUnloadCallback d = (st', d', cs')"
  shows "driver_calls [] (cs @ cs') =
      (if NT_SUCCESS (fst (ob_register env)) then Some [Pool] else None) \<and>
    (\<exists>before after held. cs' = before @ [FltUnregisterFilter (g_minifilterHandle d)] @ after \<and>
       driver_calls [] (cs @ before) = Some held \<and> (\<forall>h. Port h \<notin> set held \<and> FilterRef h \<notin> set held))"
proof -
  note l = load_calls [OF assms(1-4)]
  have cs': "cs' = snd (snd (FilterUnloadCallback d))" using assms(5) by simp
  then have 1: "driver_calls [] (cs @ cs') = (if NT_SUCCESS (fst (ob_register env)) then Some [Pool] else None)"
    using unload_calls [OF l(3,2), of "callback_resources env @ [Pool]" env]
    by (simp add: track_append l(1,4) callback_resources_def)
  have split: "cs' = snd (MinifltPortFinalize d) @ [FltUnregisterFilter (g_minifilterHandle d)] @
      unregisterNotifyRoutine @ [ObUnRegisterCallbacks (callbackRegistrationHandle d)]"
    using l(2) by (simp add: cs' FilterUnloadCallback_def MinifltPortFinalize_def)
  have 2: "driver_calls [] (cs @ snd (MinifltPortFinalize d)) =
      Some (routine_resources env @ Filter (g_minifilterHandle d) # callback_resources env @ [Pool])"
    using finalize_calls [OF l(3)] by (simp add: track_append l(1))
  have 3: "\<forall>h. Port h \<notin> set (routine_resources env @ Filter (g_minifilterHandle d) # callback_resources env @ [Pool]) \<and>
      FilterRef h \<notin> set (routine_resources env @ Filter (g_minifilterHandle d) # callback_resources env @ [Pool])"
    by (auto simp: routine_resources_def callback_resources_def)
  from 1 split 2 3 show ?thesis by blast
qed

text \<open>A machine on which every call of loading succeeds.\<close>

definition sample_load_env :: load_env where
  "sample_load_env = \<lparr>allocate_pool = (\<lambda>_. True), ob_register = (0, 3), flt_register = (0, 4),
     flt_start = (\<lambda>_. 0), ps_set = (\<lambda>_. 0), filter_from_name = (\<lambda>_. (0, 4)),
     build_descriptor = (0, 5), create_port = (\<lambda>_. (0, 6))\<rparr>"

theorem unload_gives_back_witness:
  "\<exists>d cs d' cs'. DriverEntry sample_load_env [1, 2] initial_driver = (0, d, cs) \<and>
    FilterUnloadCallback d = (0, d', cs') \<and> flt_port d = 6 \<and> driver_calls [] (cs @ cs') = Some [Pool]"
proof -
  obtain d cs where l: "DriverEntry sample_load_env [1, 2] initial_driver = (0, d, cs)" "flt_port d = 6"
    by (simp add: DriverEntry_def sample_load_env_def createRegistration_def createRegistrationMiniFilter_def
        registerNotifyRoutine_def BindToExistingFilterAndCreatePort_def MinifltPortInitialize_def
        STATUS_SUCCESS_def NT_SUCCESS_def initial_driver_def)
  obtain d' cs' where u: "FilterUnloadCallback d = (0, d', cs')"
    by (simp add: FilterUnloadCallback_def MinifltPortFinalize_def STATUS_SUCCESS_def)
  from unload_gives_back [OF l(1) _ _ _ u] have "driver_calls [] (cs @ cs') = Some [Pool]"
    by (simp add: sample_load_env_def filter_runs_def real_handles_def NT_SUCCESS_def)
  with l u show ?thesis by blast
qed

text \<open>The window in which unloading leaves the notification routines registered without a filter: what
  they send then names no filter.\<close>

lemma unload_window:
  assumes "DriverEntry env path initial_driver = (st, d, cs)" and "allocate_pool env (length path)"
    and "filter_runs env" and "real_handles env" and "NT_SUCCESS (ps_set env ProcessRoutine)"
  shows "\<exists>held m. driver_calls [] (cs @ snd (MinifltPortFinalize d)) = Some held \<and>
    Routine ProcessRoutine \<in> set held \<and>
    CreateProcessNotifyRoutineEx k (fst (MinifltPortFinalize d)) pid None = Some [m] \<and> msg_filter m = 0"
proof -
  note l = load_calls [OF assms(1-4)]
  have "driver_calls [] (cs @ snd (MinifltPortFinalize d)) =
      Some (routine_resources env @ Filter (g_minifilterHandle d) # callback_resources env @ [Pool])"
    using finalize_calls [OF l(3)] by (simp add: track_append l(1))
  moreover have "Routine ProcessRoutine \<in> set (routine_resources env)"
    using assms(5) by (simp add: routine_resources_def)
  moreover obtain ev where "CreateProcess_event k pid None = Some ev"
    by (simp add: CreateProcess_event_def)
  moreover from this have "send_event k (fst (MinifltPortFinalize d)) ev =
      event_message k (fst (MinifltPortFinalize d)) ev"
    using send_event_eq CreateProcess_event_wf by blast
  ultimately show ?thesis
    by (auto simp: CreateProcessNotifyRoutineEx_def event_message_def MinifltPortFinalize_def)
qed

end
