(* ===== verification/Agent_Receiver.thy ===== *)
theory Agent_Receiver
  imports Kernel_Driver
begin

text \<open>
  The agent's end of the driver's communication port (\<open>Receiver\<close> and \<open>hresultText\<close> of
  \<^verbatim>\<open>MedusaUserlandAgent/structs.go\<close>, \<open>Loop\<close> of \<^verbatim>\<open>main.go\<close>), and what the two ends agree on: the
  context the agent hands the driver and the messages it gets back. The Windows calls are parameters: a record of the outcomes of the calls
  \<open>Connect\<close> makes, and for \<open>Loop\<close> the sequence of outcomes of \<open>FilterGetMessage\<close>.
\<close>

section \<open>Connecting\<close>

type_synonym hresult = uintptr

definition S_OK :: hresult where "S_OK = 0"

record ConnectCtxV1 =
  Version :: u32
  CtxToProtectPID :: i32
  CtxAgentPID :: i32

definition ConnectCtxV1_shape :: "field_shape list" where
  "ConnectCtxV1_shape = [shape_u32, shape_u32, shape_u32]"

definition ctx_bytes :: "ConnectCtxV1 \<Rightarrow> u8 list" where
  "ctx_bytes c = enc_u32 (Version c) @ enc_u32 (CtxToProtectPID c) @ enc_u32 (CtxAgentPID c)"

record Receiver =
  hPort :: uintptr
  port_name :: string

definition NewReceiver :: "string \<Rightarrow> Receiver" where
  "NewReceiver portName = \<lparr>hPort = 0, port_name = portName\<rparr>"

text \<open>\<open>FormatMessageW\<close> returns a count and fills a buffer; \<open>toString\<close> is \<open>windows.UTF16ToString\<close>.\<close>

definition hresult_code :: "hresult \<Rightarrow> u32" where
  "hresult_code hr =
     (if hr AND 0xFFFF0000 = 0x80070000 then ucast (hr AND 0xFFFF) else ucast hr)"

definition hresultText ::
  "(u32 \<Rightarrow> uintptr \<times> u16 list) \<Rightarrow> (u16 list \<Rightarrow> string) \<Rightarrow> hresult \<Rightarrow> string" where
  "hresultText FormatMessageW toString hr =
     (let (r0, buf) = FormatMessageW (hresult_code hr) in
      if r0 = 0 then [] else toString buf)"

text \<open>The calls \<open>Connect\<close> makes, with what they return.\<close>

record connect_env =
  load_fltlib :: "string option" \<comment> \<open>the error of \<open>modFltlib.Load\<close>\<close>
  port_name_err :: "string \<Rightarrow> string option" \<comment> \<open>the error of \<open>UTF16PtrFromString\<close>\<close>
  filter_connect :: "string \<Rightarrow> u8 list \<Rightarrow> hresult \<times> uintptr"
  format_message :: "u32 \<Rightarrow> uintptr \<times> u16 list"
  to_string :: "u16 list \<Rightarrow> string"
  own_pid :: int \<comment> \<open>\<open>os.Getpid\<close>\<close>

datatype connect_error = LoadError string | NameError string | PortError u32 string

definition connect_ctx :: "connect_env \<Rightarrow> i32 \<Rightarrow> ConnectCtxV1" where
  "connect_ctx env toProtect =
     \<lparr>Version = 1, CtxToProtectPID = toProtect, CtxAgentPID = of_int (own_pid env)\<rparr>"

definition Connect :: "connect_env \<Rightarrow> i32 \<Rightarrow> Receiver \<Rightarrow> connect_error option \<times> Receiver" where
  "Connect env toProtect r =
     (case load_fltlib env of
        Some e \<Rightarrow> (Some (LoadError e), r)
      | None \<Rightarrow>
          (case port_name_err env (port_name r) of
             Some e \<Rightarrow> (Some (NameError e), r)
           | None \<Rightarrow>
               let (ret, h) = filter_connect env (port_name r) (ctx_bytes (connect_ctx env toProtect))
               in if ret \<noteq> S_OK
                  then (Some (PortError (ucast ret)
                          (hresultText (format_message env) (to_string env) ret)), r)
                  else (None, r\<lparr>hPort := h\<rparr>)))"

text \<open>The handles closed, and the receiver after.\<close>

definition Close :: "Receiver \<Rightarrow> uintptr list \<times> Receiver" where
  "Close r = (if hPort r \<noteq> 0 then ([hPort r], r\<lparr>hPort := 0\<rparr>) else ([], r))"

section \<open>The message loop\<close>

record filterMessageHeader =
  ReplyLength :: u32
  MessageId :: u64

definition filterMessageHeader_shape :: "field_shape list" where
  "filterMessageHeader_shape = [shape_u32, shape_u64]"

definition header_size :: nat where
  "header_size = go_sizeof filterMessageHeader_shape"

definition header_of_bytes :: "u8 list \<Rightarrow> filterMessageHeader" where
  "header_of_bytes bs =
     (let off = (\<lambda>i. field_offsets 0 filterMessageHeader_shape ! i) in
      \<lparr>ReplyLength = dec_u32 (field_at (off 0) 4 bs), MessageId = dec_u64 (field_at (off 1) 8 bs)\<rparr>)"

text \<open>\<open>FilterGetMessage\<close>: its result and the bytes it wrote to the front of the buffer. The buffer
  is allocated once and reused.\<close>

type_synonym get_message = "hresult \<times> u8 list"

definition Loop_iter :: "get_message \<Rightarrow> u8 list \<Rightarrow> ACEvent option \<times> u8 list" where
  "Loop_iter msg buf =
     (let (ret, data) = msg; buf' = data @ drop (length data) buf in
      if ret \<noteq> S_OK then (None, buf')
      else let hdr = header_of_bytes (take header_size buf');
               payload = take ACEvent_size (drop header_size buf');
               toSendEvent = ACEvent_of_bytes (take ACEvent_size payload);
               (jsonStr, _) = ToJSON toSendEvent
           in (Some toSendEvent, buf'))"

text \<open>The events sent to \<open>EventChannel\<close> in the first iterations; the loop never returns.\<close>

fun Loop_from :: "get_message list \<Rightarrow> u8 list \<Rightarrow> ACEvent list" where
  "Loop_from [] buf = []"
| "Loop_from (m # ms) buf =
     (let (ev, buf') = Loop_iter m buf in
      (case ev of None \<Rightarrow> [] | Some e \<Rightarrow> [e]) @ Loop_from ms buf')"

definition Loop :: "get_message list \<Rightarrow> ACEvent list" where
  "Loop ms = Loop_from ms (replicate (header_size + ACEvent_size) 0)"

section \<open>Lemmas\<close>

lemma header_size_eq [simp]: "header_size = 16"
  by (simp add: header_size_def go_sizeof_def struct_align_def filterMessageHeader_shape_def
      align_up_def)

lemma ConnectCtxV1_size: "go_sizeof ConnectCtxV1_shape = 12"
  by (simp add: go_sizeof_def struct_align_def ConnectCtxV1_shape_def align_up_def)

lemma length_ctx_bytes [simp]: "length (ctx_bytes c) = 12"
  by (simp add: ctx_bytes_def)

lemma driver_reads_ctx:
  assumes "Version c = 1"
  shows "MinifltPortNotifyRoutine p (Some (ctx_bytes c)) d =
    Some (d\<lparr>client_port := p, DrvToProtectPID := CtxToProtectPID c, DrvAgentPID := CtxAgentPID c\<rparr>)"
  using context_bytes [of p "CtxToProtectPID c" "CtxAgentPID c" "[]" d] assms by (simp add: ctx_bytes_def)

lemma Loop_iter_full:
  assumes "length hdr = header_size" and "length payload = ACEvent_size"
  shows "Loop_iter (S_OK, hdr @ payload) buf =
    (Some (ACEvent_of_bytes payload), (hdr @ payload) @ drop (header_size + ACEvent_size) buf)"
  using assms by (simp add: Loop_iter_def Let_def split: prod.splits)

lemma Loop_from_append:
  "Loop_from (ms @ ms') buf =
     Loop_from ms buf @ Loop_from ms' (foldl (\<lambda>b m. snd (Loop_iter m b)) buf ms)"
  by (induction ms arbitrary: buf) (simp_all add: Let_def split: prod.splits)

text \<open>Messages of the full size, as the driver sends them, interleaved with failing calls.\<close>

definition full_message :: "get_message \<Rightarrow> bool" where
  "full_message m \<longleftrightarrow> fst m = S_OK \<longrightarrow> length (snd m) = header_size + ACEvent_size"

lemma Loop_from_full:
  "list_all full_message ms \<Longrightarrow>
     Loop_from ms buf = map (\<lambda>m. ACEvent_of_bytes (drop header_size (snd m))) (filter (\<lambda>m. fst m = S_OK) ms)"
proof (induction ms arbitrary: buf)
  case Nil
  then show ?case by simp
next
  case (Cons m ms)
  obtain ret data where m: "m = (ret, data)" by fastforce
  show ?case
  proof (cases "ret = S_OK")
    case True
    with Cons.prems m have "length data = 16 + 3648" by (simp add: full_message_def)
    then have "Loop_iter m buf = (Some (ACEvent_of_bytes (drop 16 data)), data @ drop 3664 buf)"
      using Loop_iter_full [of "take 16 data" "drop 16 data" buf] True m by simp
    with Cons True m show ?thesis by simp
  next
    case False
    with Cons m show ?thesis by (simp add: Loop_iter_def)
  qed
qed

text \<open>No message is longer than the buffer, and the events are well-formed.\<close>

lemma Loop_iter_wf:
  assumes "length (snd m) \<le> header_size + ACEvent_size" and "length buf = header_size + ACEvent_size"
    and "Loop_iter m buf = (ev, buf')"
  shows "length buf' = header_size + ACEvent_size" and "ev = Some e \<Longrightarrow> wf_ACEvent e"
  using assms by (auto simp: Loop_iter_def Let_def split: prod.splits if_splits)

lemma Loop_from_wf:
  "\<forall>m \<in> set ms. length (snd m) \<le> header_size + ACEvent_size \<Longrightarrow> length buf = header_size + ACEvent_size \<Longrightarrow>
     \<forall>ev \<in> set (Loop_from ms buf). wf_ACEvent ev"
proof (induction ms arbitrary: buf)
  case (Cons m ms)
  obtain ev buf' where i: "Loop_iter m buf = (ev, buf')" by fastforce
  have "length (snd m) \<le> header_size + ACEvent_size" using Cons.prems(1) by simp
  note w = Loop_iter_wf [OF this Cons.prems(2) i]
  show ?case using Cons w i by (auto split: option.splits)
qed simp

section \<open>Properties\<close>

text \<open>The calls of a machine whose driver accepts the connection, for the concrete instances.\<close>

definition sample_connect_env :: connect_env where
  "sample_connect_env =
     \<lparr>load_fltlib = None, port_name_err = (\<lambda>_. None), filter_connect = (\<lambda>_ _. (S_OK, 5)),
      format_message = (\<lambda>_. (0, [])), to_string = (\<lambda>_. []), own_pid = 99\<rparr>"

lemma sample_Connect: "Connect sample_connect_env pid (NewReceiver p) = (None, \<lparr>hPort = 5, port_name = p\<rparr>)"
  by (simp add: Connect_def NewReceiver_def sample_connect_env_def)

lemma Connect_bytes:
  assumes "Connect env toProtect r = (None, r')"
  shows "filter_connect env (port_name r) (ctx_bytes (connect_ctx env toProtect)) = (S_OK, hPort r')"
    and "port_name r' = port_name r"
    and "MinifltPortNotifyRoutine p (Some (ctx_bytes (connect_ctx env toProtect))) d =
      Some (d\<lparr>client_port := p, DrvToProtectPID := toProtect, DrvAgentPID := of_int (own_pid env)\<rparr>)"
  using assms driver_reads_ctx [of "connect_ctx env toProtect" p d]
  by (auto simp: Connect_def connect_ctx_def Let_def split: option.splits prod.splits if_splits)

text \<open>C17. When \<open>Connect\<close> succeeds, the context it handed over makes the
  driver protect the process the agent names and exempt the agent, both as 32-bit ids; the call
  received exactly the twelve bytes the driver reads, and the receiver holds the returned port.\<close>

theorem Connect_agrees_with_driver:
  assumes "Connect env toProtect r = (None, r')"
  shows "\<exists>ctx. filter_connect env (port_name r) ctx = (S_OK, hPort r') \<and> length ctx = 12 \<and>
    MinifltPortNotifyRoutine p (Some ctx) d =
      Some (d\<lparr>client_port := p, DrvToProtectPID := toProtect, DrvAgentPID := of_int (own_pid env)\<rparr>) \<and>
    port_name r' = port_name r"
  using Connect_bytes [OF assms] by (intro exI [of _ "ctx_bytes (connect_ctx env toProtect)"]) simp

theorem Connect_agrees_with_driver_witness:
  "\<exists>ctx. MinifltPortNotifyRoutine 7 (Some ctx) initial_driver =
     Some (initial_driver\<lparr>client_port := 7, DrvToProtectPID := 1234, DrvAgentPID := 99\<rparr>)"
  using Connect_agrees_with_driver [of sample_connect_env 1234 "NewReceiver ''p''" _ 7 initial_driver, OF sample_Connect]
  by (auto simp: sample_connect_env_def)

text \<open>C3. From the agent's successful \<open>Connect\<close> on, for as long as nobody else connects and
  whatever else the kernel reports to the driver: a handle to the protected process that any process
  but the agent opens or duplicates is granted at most the rights to wait for the process and to
  query limited information (\<open>0x101000\<close>), and every other handle exactly the rights it asked for.\<close>

theorem protected_process_guarded:
  assumes "Connect env toProtect r = (None, r')" and "toProtect \<noteq> UNSET_PID"
    and "driver_run d0 ((k0, Connected p (Some (ctx_bytes (connect_ctx env toProtect)))) # es) = Some d"
    and "\<forall>(k, e) \<in> set es. \<not> is_connect e"
    and "driver_answer k d (HandleOperation oi) = Some (d', ms, granted)"
  shows "filter_connect env (port_name r) (ctx_bytes (connect_ctx env toProtect)) = (S_OK, hPort r') \<and>
    granted = Some (if \<not> KernelHandle oi \<and> is_process oi \<and> ucast (object_pid oi) = toProtect \<and>
        PsGetCurrentProcessId k \<noteq> scast (of_int (own_pid env) :: i32)
      then DesiredAccess (ob_params oi) AND 0x101000 else DesiredAccess (ob_params oi))"
proof -
  note c = Connect_bytes [OF assms(1)]
  have "d = d0\<lparr>client_port := p, DrvToProtectPID := toProtect, DrvAgentPID := of_int (own_pid env)\<rparr>"
    using assms(3) driver_run_keeps [OF _ assms(4)] by (simp add: driver_answer_def c(3))
  with assms(2) handle_answer [OF assms(5)] c(1) show ?thesis
    by (simp add: MINIMAL_ALLOW_def)
qed

theorem protected_process_guarded_witness:
  "\<exists>d ms. driver_run initial_driver
      [(sample_kernel 99, Connected 7 (Some (ctx_bytes (connect_ctx sample_connect_env 1234)))),
       (sample_kernel 666, ProcessNotify 666 None)] = Some d \<and>
    driver_answer (sample_kernel 666) d
      (HandleOperation \<lparr>KernelHandle = False, is_process = True, object_pid = 1234,
         ob_params = CreateHandleInformation 0x1FFFFF\<rparr>) = Some (d, ms, Some 0x101000)"
proof -
  let ?es = "[(sample_kernel 666, ProcessNotify 666 None)]"
  let ?oi = "\<lparr>KernelHandle = False, is_process = True, object_pid = 1234,
     ob_params = CreateHandleInformation 0x1FFFFF\<rparr>"
  obtain d where d: "driver_run initial_driver
      ((sample_kernel 99, Connected 7 (Some (ctx_bytes (connect_ctx sample_connect_env 1234)))) # ?es) = Some d"
    by (simp add: driver_answer_def Connect_bytes(3) [OF sample_Connect] CreateProcessNotifyRoutineEx_def
        CreateProcess_event_def Let_def)
  obtain d' ms g where a: "driver_answer (sample_kernel 666) d (HandleOperation ?oi) = Some (d', ms, g)"
    by (cases "CreateCallback (sample_kernel 666) d ?oi") (simp add: driver_answer_def)
  then have "d' = d" by (rule driver_answer_keeps) simp
  with protected_process_guarded [OF sample_Connect _ d _ a] a d show ?thesis
    by (simp add: UNSET_PID_def sample_kernel_def sample_connect_env_def)
qed

text \<open>The message loop reuses its buffer: after a full message, a successful
  call that wrote fewer bytes gives an event whose rest are the bytes of the message before it.\<close>

lemma Loop_stale_bytes:
  assumes "length m = 3664" and "16 \<le> length m'" and "length m' \<le> 3664"
  shows "Loop [(S_OK, m), (S_OK, m')] =
    [ACEvent_of_bytes (drop 16 m), ACEvent_of_bytes (drop 16 m' @ drop (length m') m)]"
  using assms by (simp add: Loop_def Loop_iter_def Let_def split: prod.splits)

end
