(* ===== verification/Agent_IPC.thy ===== *)
theory Agent_IPC
  imports AC_Event
begin

text \<open>
  The agent's named-pipe server (\<^verbatim>\<open>MedusaUserlandAgent/IPC.go\<close>), through which the injected DLLs
  report: \<open>Start\<close>, the accept loop \<open>server\<close>, the per-client \<open>readLoop\<close> and \<open>drain\<close>. The Windows
  calls are parameters. For the accept loop they are the outcomes of one iteration's calls; for the
  readers a function \<open>ReadFile\<close> over the state of the pipe, which returns the error, the bytes it
  put into the buffer and the new state. A call that blocks is one whose outcome comes later. What
  the documentation of Windows promises for a message-mode pipe is the predicate
  \<open>message_mode_pipe\<close>, a named hypothesis of the theorems that need it.
\<close>

section \<open>Starting\<close>

definition defaultPipe :: string where
  "defaultPipe = [CHR 0x5C, CHR 0x5C, CHR 0x2E, CHR 0x5C] @ ''pipe'' @ [CHR 0x5C] @ ''MedusaPipe''"

text \<open>The name the server goroutine is started with.\<close>

definition Start :: "string \<Rightarrow> string" where
  "Start pipe = (if pipe = [] then defaultPipe else pipe)"

section \<open>The accept loop\<close>

datatype errno = ERROR_BROKEN_PIPE | ERROR_PIPE_NOT_CONNECTED | ERROR_MORE_DATA
  | ERROR_PIPE_CONNECTED | ERROR_IO_PENDING | errno_other nat

datatype go_err = Errno errno | OtherError \<comment> \<open>an error value whose type is, or is not, \<open>syscall.Errno\<close>\<close>






section \<open>Reading events\<close>

type_synonym 'p read_file = "'p \<Rightarrow> nat \<Rightarrow> go_err option \<times> u8 list \<times> 'p"

text \<open>The buffer after a read: the bytes read, then what the buffer held.\<close>

definition overlay :: "u8 list \<Rightarrow> u8 list \<Rightarrow> u8 list" where
  "overlay data buf = data @ drop (length data) buf"

fun drain :: "nat \<Rightarrow> 'p read_file \<Rightarrow> 'p \<Rightarrow> 'p option" where
  "drain 0 ReadFile h = None"
| "drain (Suc fuel) ReadFile h =
     (let (err, tmp, h') = ReadFile h (16 * 1024) in
      if err = Some (Errno ERROR_MORE_DATA) then drain fuel ReadFile h' else Some h')"

text \<open>The events sent to \<open>EventChannel\<close> before the loop returns, and the pipe it leaves;
  \<open>None\<close> when the fuel does not reach the return.\<close>

fun readLoop :: "nat \<Rightarrow> 'p read_file \<Rightarrow> 'p \<Rightarrow> u8 list \<Rightarrow> (ACEvent list \<times> 'p) option" where
  "readLoop 0 ReadFile h buf = None"
| "readLoop (Suc fuel) ReadFile h buf =
     (let (err, data, h') = ReadFile h ACEvent_size; buf' = overlay data buf; n = length data in
      case err of
        Some (Errno e) \<Rightarrow>
          if e = ERROR_BROKEN_PIPE \<or> e = ERROR_PIPE_NOT_CONNECTED then Some ([], h')
          else if e = ERROR_MORE_DATA then
            (case drain fuel ReadFile h' of
               None \<Rightarrow> None
             | Some h'' \<Rightarrow> readLoop fuel ReadFile h'' buf')
          else Some ([], h')
      | Some OtherError \<Rightarrow> Some ([], h')
      | None \<Rightarrow>
          if n = 0 then Some ([], h')
          else if n \<noteq> ACEvent_size then readLoop fuel ReadFile h' buf'
          else map_option (\<lambda>(evs, p). (ACEvent_of_bytes (take ACEvent_size buf') # evs, p))
                 (readLoop fuel ReadFile h' buf'))"

text \<open>\<open>readLoop\<close> starts with a zeroed buffer.\<close>

definition readLoop_run :: "nat \<Rightarrow> 'p read_file \<Rightarrow> 'p \<Rightarrow> (ACEvent list \<times> 'p) option" where
  "readLoop_run fuel ReadFile h = readLoop fuel ReadFile h (replicate ACEvent_size 0)"

section \<open>What Windows promises of a message-mode pipe\<close>

text \<open>\<open>pending\<close> are the messages the client wrote before it closed its end. A read returns the next
  message, or as much of it as fits with \<open>ERROR_MORE_DATA\<close> and the rest left in the pipe; after the
  last message it fails with \<open>ERROR_BROKEN_PIPE\<close>.\<close>

definition message_mode_pipe :: "'p read_file \<Rightarrow> ('p \<Rightarrow> u8 list list) \<Rightarrow> bool" where
  "message_mode_pipe ReadFile pending \<longleftrightarrow>
     (\<forall>h k. 0 < k \<longrightarrow>
        (case pending h of
           [] \<Rightarrow> fst (ReadFile h k) = Some (Errno ERROR_BROKEN_PIPE)
         | m # ms \<Rightarrow>
             (\<exists>h'. if length m \<le> k
                   then ReadFile h k = (None, m, h') \<and> pending h' = ms
                   else ReadFile h k = (Some (Errno ERROR_MORE_DATA), take k m, h') \<and>
                        pending h' = drop k m # ms)))"

text \<open>A pipe that is the list of its messages.\<close>

fun list_pipe_read :: "u8 list list read_file" where
  "list_pipe_read [] k = (Some (Errno ERROR_BROKEN_PIPE), [], [])"
| "list_pipe_read (m # ms) k =
     (if length m \<le> k then (None, m, ms)
      else (Some (Errno ERROR_MORE_DATA), take k m, drop k m # ms))"

text \<open>The events a client's messages stand for: those of the exact size, up to an empty message.\<close>

definition framed_events :: "u8 list list \<Rightarrow> ACEvent list" where
  "framed_events ms =
     map ACEvent_of_bytes (filter (\<lambda>m. length m = ACEvent_size) (takeWhile (\<lambda>m. m \<noteq> []) ms))"

definition read_fuel :: "u8 list list \<Rightarrow> nat" where
  "read_fuel ms = Suc (sum_list (map (\<lambda>m. Suc (length m)) ms))"

section \<open>Handles\<close>




section \<open>The reading loop\<close>

lemma list_pipe_is_message_mode: "message_mode_pipe list_pipe_read (\<lambda>ms. ms)"
  by (auto simp: message_mode_pipe_def split: list.splits)

lemma message_mode_end:
  "message_mode_pipe rf pending \<Longrightarrow> pending h = [] \<Longrightarrow> 0 < k \<Longrightarrow>
     \<exists>d h'. rf h k = (Some (Errno ERROR_BROKEN_PIPE), d, h')"
  unfolding message_mode_pipe_def
  by (drule spec [of _ h], drule spec [of _ k], cases "rf h k") auto

lemma message_mode_fits:
  "message_mode_pipe rf pending \<Longrightarrow> pending h = m # ms \<Longrightarrow> length m \<le> k \<Longrightarrow> 0 < k \<Longrightarrow>
     \<exists>h'. rf h k = (None, m, h') \<and> pending h' = ms"
  unfolding message_mode_pipe_def by (drule spec [of _ h], drule spec [of _ k]) auto

lemma message_mode_too_long:
  "message_mode_pipe rf pending \<Longrightarrow> pending h = m # ms \<Longrightarrow> k < length m \<Longrightarrow> 0 < k \<Longrightarrow>
     \<exists>h'. rf h k = (Some (Errno ERROR_MORE_DATA), take k m, h') \<and> pending h' = drop k m # ms"
  unfolding message_mode_pipe_def by (drule spec [of _ h], drule spec [of _ k]) auto

lemma drain_takes_rest:
  assumes "message_mode_pipe rf pending"
  shows "pending h = m # ms \<Longrightarrow> length m < fuel \<Longrightarrow>
    \<exists>h'. drain fuel rf h = Some h' \<and> pending h' = ms"
proof (induction fuel arbitrary: h m)
  case 0
  then show ?case by simp
next
  case (Suc fuel)
  show ?case
  proof (cases "length m \<le> 16 * 1024")
    case True
    with message_mode_fits [OF assms Suc.prems(1) True] show ?thesis by auto
  next
    case False
    then obtain h' where h': "rf h (16 * 1024) =
        (Some (Errno ERROR_MORE_DATA), take (16 * 1024) m, h')" "pending h' = drop (16 * 1024) m # ms"
      using message_mode_too_long [OF assms Suc.prems(1), of "16 * 1024"] by auto
    have "length (drop (16 * 1024) m) < fuel" using Suc.prems(2) False by simp
    with Suc.IH [OF h'(2)] h'(1) show ?thesis by simp
  qed
qed

lemma readLoop_delivers:
  assumes "message_mode_pipe rf pending"
  shows "read_fuel (pending h) \<le> fuel \<Longrightarrow>
    \<exists>h'. readLoop fuel rf h buf = Some (framed_events (pending h), h')"
proof (induction fuel arbitrary: h buf)
  case 0
  then show ?case by (simp add: read_fuel_def)
next
  case (Suc fuel)
  show ?case
  proof (cases "pending h")
    case Nil
    then show ?thesis
      using message_mode_end [OF assms Nil, of ACEvent_size] by (auto simp: framed_events_def)
  next
    case (Cons m ms)
    have fuel: "Suc (length m) + read_fuel ms \<le> Suc fuel"
      using Suc.prems Cons by (simp add: read_fuel_def)
    show ?thesis
    proof (cases "length m \<le> ACEvent_size")
      case True
      then obtain h' where h': "rf h ACEvent_size = (None, m, h')" "pending h' = ms"
        using message_mode_fits [OF assms Cons True] by auto
      obtain p where p: "readLoop fuel rf h' (overlay m buf) = Some (framed_events ms, p)"
        using Suc.IH [of h' "overlay m buf"] fuel h'(2) by auto
      show ?thesis
        using h' p Cons by (auto simp: framed_events_def overlay_def)
    next
      case False
      then obtain h1 where h1: "rf h ACEvent_size =
          (Some (Errno ERROR_MORE_DATA), take ACEvent_size m, h1)"
          "pending h1 = drop ACEvent_size m # ms"
        using message_mode_too_long [OF assms Cons, of ACEvent_size] by auto
      have "length (drop ACEvent_size m) < fuel" using fuel False by (simp add: read_fuel_def)
      then obtain h2 where h2: "drain fuel rf h1 = Some h2" "pending h2 = ms"
        using drain_takes_rest [OF assms h1(2)] by blast
      obtain p where
          "readLoop fuel rf h2 (overlay (take ACEvent_size m) buf) = Some (framed_events ms, p)"
        using Suc.IH [of h2 "overlay (take ACEvent_size m) buf"] fuel h2(2) by auto
      with h1 h2 False Cons show ?thesis by (auto simp: framed_events_def)
    qed
  qed
qed

text \<open>Whatever a pipe returns within the size it was asked for, the events are well-formed.\<close>

lemma readLoop_wf:
  assumes "\<And>h k. length (fst (snd (ReadFile h k))) \<le> k"
  shows "length buf = ACEvent_size \<Longrightarrow> readLoop fuel ReadFile h buf = Some (evs, h') \<Longrightarrow> \<forall>ev \<in> set evs. wf_ACEvent ev"
proof (induction fuel arbitrary: h buf evs)
  case (Suc fuel)
  obtain err data h1 where r: "ReadFile h 3648 = (err, data, h1)" using prod_cases3 by blast
  have "length data \<le> ACEvent_size" using assms [of h 3648] r by simp
  then have l: "length (overlay data buf) = ACEvent_size" using Suc.prems(1) by (simp add: overlay_def)
  have IH: "\<forall>ev \<in> set es. wf_ACEvent ev" if "readLoop fuel ReadFile g (overlay data buf) = Some (es, h')" for g es
    using Suc.IH [OF l that] .
  from Suc.prems(2) l show ?case
    by (auto simp: r Let_def split: option.splits go_err.splits if_splits dest!: IH)
qed simp

section \<open>Properties\<close>

text \<open>C6. On a message-mode pipe, as Windows documents it, \<open>readLoop\<close> returns, and the
  events it sends are those of the client's messages that have exactly the size of an event, in
  order, up to the first empty message: a longer message is drained and dropped whole, a shorter one
  is skipped, and neither shifts the framing of the messages after it.\<close>

theorem readLoop_framing:
  assumes "message_mode_pipe ReadFile pending" and "read_fuel (pending h) \<le> fuel"
  shows "\<exists>h'. readLoop_run fuel ReadFile h =
    Some (map ACEvent_of_bytes
            (filter (\<lambda>m. length m = ACEvent_size) (takeWhile (\<lambda>m. m \<noteq> []) (pending h))), h')"
  using readLoop_delivers [OF assms] by (simp add: readLoop_run_def framed_events_def)

theorem readLoop_framing_witness:
  "\<exists>h'. readLoop_run (read_fuel [replicate 5000 1, evToBytes (0, 0) zero_ACEvent, [1, 2]])
      list_pipe_read [replicate 5000 1, evToBytes (0, 0) zero_ACEvent, [1, 2]] =
    Some ([zero_ACEvent], h')"
proof -
  let ?ms = "[replicate 5000 1, evToBytes (0, 0) zero_ACEvent, [1, 2]] :: u8 list list"
  have l: "length (evToBytes (0, 0) zero_ACEvent) = 3648" by simp
  then have "evToBytes (0, 0) zero_ACEvent \<noteq> []" by (metis list.size(3) zero_neq_numeral)
  with l show ?thesis
    using readLoop_framing [OF list_pipe_is_message_mode, of ?ms "read_fuel ?ms"] by simp
qed



end
