(* ===== verification/Go_Channel.thy ===== *)
theory Go_Channel
  imports Medusa_Prelude
begin

text \<open>
  Buffered Go channels: a send appends while there is room, blocks when the buffer is full and
  panics once the channel is closed; a receive takes the oldest element, blocks on an empty open
  channel and returns the zero value with \<open>ok = false\<close> on an empty closed one; closing twice
  panics. All channels of the program are buffered. The queue discipline the components rely on is
  the locale \<open>fifo\<close>, whose client lemma says that whatever the interleaving of sends and
  receives, elements leave in the order they entered and none is lost or duplicated.
\<close>

section \<open>Operations\<close>

record 'a chan =
  ch_buf :: "'a list"
  ch_cap :: nat
  ch_closed :: bool

datatype 'a sent = Sent "'a chan" | SendBlocks | SendPanics
datatype 'a received = Received 'a "'a chan" | RecvClosed | RecvBlocks
datatype 'a closing = Closed "'a chan" | ClosePanics

definition make_chan :: "nat \<Rightarrow> 'a chan" where
  "make_chan n = \<lparr>ch_buf = [], ch_cap = n, ch_closed = False\<rparr>"

definition chan_send :: "'a chan \<Rightarrow> 'a \<Rightarrow> 'a sent" where
  "chan_send ch x =
     (if ch_closed ch then SendPanics
      else if length (ch_buf ch) < ch_cap ch then Sent (ch\<lparr>ch_buf := ch_buf ch @ [x]\<rparr>)
      else SendBlocks)"

definition chan_recv :: "'a chan \<Rightarrow> 'a received" where
  "chan_recv ch =
     (case ch_buf ch of
        x # xs \<Rightarrow> Received x (ch\<lparr>ch_buf := xs\<rparr>)
      | [] \<Rightarrow> if ch_closed ch then RecvClosed else RecvBlocks)"

definition chan_close :: "'a chan \<Rightarrow> 'a closing" where
  "chan_close ch = (if ch_closed ch then ClosePanics else Closed (ch\<lparr>ch_closed := True\<rparr>))"

definition wf_chan :: "'a chan \<Rightarrow> bool" where
  "wf_chan ch \<longleftrightarrow> length (ch_buf ch) \<le> ch_cap ch"

section \<open>Rules for the component proofs\<close>

lemma chan_send_Sent [loop_simps]:
  "chan_send ch x = Sent ch' \<longleftrightarrow> \<not> ch_closed ch \<and> length (ch_buf ch) < ch_cap ch \<and>
     ch' = ch\<lparr>ch_buf := ch_buf ch @ [x]\<rparr>"
  by (auto simp: chan_send_def)

lemma chan_send_Blocks [loop_simps]:
  "chan_send ch x = SendBlocks \<longleftrightarrow> \<not> ch_closed ch \<and> ch_cap ch \<le> length (ch_buf ch)"
  by (auto simp: chan_send_def)

lemma chan_send_Panics [loop_simps]: "chan_send ch x = SendPanics \<longleftrightarrow> ch_closed ch"
  by (auto simp: chan_send_def)

lemma chan_recv_Received [loop_simps]:
  "chan_recv ch = Received x ch' \<longleftrightarrow>
     (\<exists>xs. ch_buf ch = x # xs \<and> ch' = ch\<lparr>ch_buf := xs\<rparr>)"
  by (auto simp: chan_recv_def split: list.splits)

lemma chan_recv_Closed [loop_simps]: "chan_recv ch = RecvClosed \<longleftrightarrow> ch_buf ch = [] \<and> ch_closed ch"
  by (auto simp: chan_recv_def split: list.splits)

lemma chan_recv_Blocks [loop_simps]: "chan_recv ch = RecvBlocks \<longleftrightarrow> ch_buf ch = [] \<and> \<not> ch_closed ch"
  by (auto simp: chan_recv_def split: list.splits)

lemma chan_close_Closed [loop_simps]:
  "chan_close ch = Closed ch' \<longleftrightarrow> \<not> ch_closed ch \<and> ch' = ch\<lparr>ch_closed := True\<rparr>"
  by (auto simp: chan_close_def)

lemma chan_close_Panics [loop_simps]: "chan_close ch = ClosePanics \<longleftrightarrow> ch_closed ch"
  by (simp add: chan_close_def)

lemma make_chan_simps [simp]:
  "ch_buf (make_chan n) = []" "ch_cap (make_chan n) = n" "ch_closed (make_chan n) = False"
  "wf_chan (make_chan n)"
  by (simp_all add: make_chan_def wf_chan_def)

section \<open>The queue contract\<close>

datatype 'a queue_op = Put 'a | Get

fun puts :: "'a queue_op list \<Rightarrow> 'a list" where
  "puts [] = []"
| "puts (Put x # ops) = x # puts ops"
| "puts (Get # ops) = puts ops"

fun queue_run ::
  "('q \<Rightarrow> 'a \<Rightarrow> 'q option) \<Rightarrow> ('q \<Rightarrow> ('a \<times> 'q) option) \<Rightarrow> 'a queue_op list \<Rightarrow> 'q \<Rightarrow> ('a list \<times> 'q) option"
where
  "queue_run put get [] q = Some ([], q)"
| "queue_run put get (Put x # ops) q =
     (case put q x of None \<Rightarrow> None | Some q' \<Rightarrow> queue_run put get ops q')"
| "queue_run put get (Get # ops) q =
     (case get q of
        None \<Rightarrow> None
      | Some (x, q') \<Rightarrow> map_option (\<lambda>(xs, q''). (x # xs, q'')) (queue_run put get ops q'))"

definition chan_put :: "'a chan \<Rightarrow> 'a \<Rightarrow> 'a chan option" where
  "chan_put ch x = (case chan_send ch x of Sent ch' \<Rightarrow> Some ch' | _ \<Rightarrow> None)"

definition chan_get :: "'a chan \<Rightarrow> ('a \<times> 'a chan) option" where
  "chan_get ch = (case chan_recv ch of Received x ch' \<Rightarrow> Some (x, ch') | _ \<Rightarrow> None)"

locale fifo =
  fixes put :: "'q \<Rightarrow> 'a \<Rightarrow> 'q option"
    and get :: "'q \<Rightarrow> ('a \<times> 'q) option"
    and contents :: "'q \<Rightarrow> 'a list"
    and bound :: "'q \<Rightarrow> nat"
    and ok :: "'q \<Rightarrow> bool"
  assumes put_contents: "ok q \<Longrightarrow> put q x = Some q' \<Longrightarrow> contents q' = contents q @ [x]"
    and get_contents: "ok q \<Longrightarrow> get q = Some (x, q') \<Longrightarrow> contents q = x # contents q'"
    and put_ok: "ok q \<Longrightarrow> put q x = Some q' \<Longrightarrow> ok q' \<and> bound q' = bound q"
    and get_ok: "ok q \<Longrightarrow> get q = Some (x, q') \<Longrightarrow> ok q' \<and> bound q' = bound q"
    and bounded: "ok q \<Longrightarrow> length (contents q) \<le> bound q"
begin

lemma run_order:
  "ok q \<Longrightarrow> queue_run put get ops q = Some (outs, q') \<Longrightarrow>
     contents q @ puts ops = outs @ contents q'"
proof (induction ops arbitrary: q outs)
  case Nil
  then show ?case by simp
next
  case (Cons op ops)
  show ?case
  proof (cases op)
    case (Put x)
    with Cons.prems obtain q1 where
        p: "put q x = Some q1" and r: "queue_run put get ops q1 = Some (outs, q')"
      by (auto split: option.splits)
    from Cons.prems(1) p have "contents q1 = contents q @ [x]" "ok q1"
      by (auto dest: put_contents put_ok)
    with Cons.IH [OF _ r] Put show ?thesis by simp
  next
    case Get
    with Cons.prems obtain x q1 outs1 where
        g: "get q = Some (x, q1)" and r: "queue_run put get ops q1 = Some (outs1, q')"
        and o: "outs = x # outs1"
      by (auto split: option.splits)
    from Cons.prems(1) g have "contents q = x # contents q1" "ok q1"
      by (auto dest: get_contents get_ok)
    with Cons.IH [OF _ r] Get o show ?thesis by simp
  qed
qed

text \<open>What a client that records its puts and gets knows: what went in is what came out, then what is
  inside.\<close>

lemma put_journal:
  "ok q \<Longrightarrow> put q x = Some q' \<Longrightarrow> ins = outs @ contents q \<Longrightarrow> ins @ [x] = outs @ contents q'"
  by (simp add: put_contents)

lemma get_journal:
  "ok q \<Longrightarrow> get q = Some (x, q') \<Longrightarrow> ins = outs @ contents q \<Longrightarrow> ins = (outs @ [x]) @ contents q'"
  by (simp add: get_contents)

lemma run_bounded:
  "ok q \<Longrightarrow> queue_run put get ops q = Some (outs, q') \<Longrightarrow> length (contents q') \<le> bound q"
proof (induction ops arbitrary: q outs)
  case Nil
  then show ?case by (simp add: bounded)
next
  case (Cons op ops)
  then show ?case
    by (cases op) (fastforce split: option.splits dest: put_ok get_ok)+
qed

end

lemma chan_put_Some [loop_simps]:
  "chan_put ch x = Some ch' \<longleftrightarrow> chan_send ch x = Sent ch'"
  by (auto simp: chan_put_def split: sent.splits)

lemma chan_get_Some [loop_simps]:
  "chan_get ch = Some (x, ch') \<longleftrightarrow> chan_recv ch = Received x ch'"
  by (auto simp: chan_get_def split: received.splits)

interpretation chan: fifo chan_put chan_get ch_buf ch_cap wf_chan
  by unfold_locales (auto simp: loop_simps wf_chan_def)

text \<open>The contract in the terms of the source's operations.\<close>

lemmas chan_sent_journal = chan.put_journal [unfolded chan_put_Some]
lemmas chan_sent_ok = chan.put_ok [unfolded chan_put_Some]
lemmas chan_received_journal = chan.get_journal [unfolded chan_get_Some]
lemmas chan_received_ok = chan.get_ok [unfolded chan_get_Some]

lemma chan_closed_same:
  "chan_send ch x = Sent ch' \<Longrightarrow> ch_closed ch' = ch_closed ch"
  "chan_recv ch = Received x ch' \<Longrightarrow> ch_closed ch' = ch_closed ch"
  by (auto simp: loop_simps)

end
