(* ===== verification/Transition.thy ===== *)
theory Transition
  imports Main
begin

text \<open>
  What the step relations of the development share. \<open>transition_system\<close> is a step relation with the
  inductive predicate that collects the states it reaches; \<open>simulation\<close> says that a detailed system
  implements an abstract one, step by step or by doing nothing visible, on the states of an
  invariant; \<open>ranked_steps\<close> that a number falls with every step, so that the steps come to an end.
\<close>

locale transition_system =
  fixes step :: "'s \<Rightarrow> 's \<Rightarrow> bool" and reach :: "'s \<Rightarrow> 's \<Rightarrow> bool"
  assumes reach_refl: "reach s s"
    and reach_step: "reach s t \<Longrightarrow> step t u \<Longrightarrow> reach s u"
    and reach_induct: "reach s t \<Longrightarrow> P s \<Longrightarrow> (\<And>t u. reach s t \<Longrightarrow> P t \<Longrightarrow> step t u \<Longrightarrow> P u) \<Longrightarrow> P t"
begin

lemma reach_trans: "reach t u \<Longrightarrow> reach s t \<Longrightarrow> reach s u"
  by (erule reach_induct) (auto intro: reach_step)

lemma reach_one: "step s t \<Longrightarrow> reach s t"
  using reach_refl reach_step by blast

lemma reach_rtranclp: "reach s t \<longleftrightarrow> step\<^sup>*\<^sup>* s t"
proof
  show "reach s t \<Longrightarrow> step\<^sup>*\<^sup>* s t" by (erule reach_induct) auto
  show "step\<^sup>*\<^sup>* s t \<Longrightarrow> reach s t" by (induction rule: rtranclp_induct) (auto intro: reach_refl reach_step)
qed

lemma reach_invariant: "reach s t \<Longrightarrow> I s \<Longrightarrow> (\<And>t u. step t u \<Longrightarrow> I t \<Longrightarrow> I u) \<Longrightarrow> I t"
  by (erule reach_induct) auto

end

locale simulation = transition_system +
  fixes astep :: "'a \<Rightarrow> 'a \<Rightarrow> bool" and abs :: "'s \<Rightarrow> 'a" and inv :: "'s \<Rightarrow> bool"
  assumes inv_step: "step s t \<Longrightarrow> inv s \<Longrightarrow> inv t"
    and simulates: "step s t \<Longrightarrow> inv s \<Longrightarrow> abs t = abs s \<or> astep (abs s) (abs t)"
begin

lemma run_inv: "reach s t \<Longrightarrow> inv s \<Longrightarrow> inv t"
  using reach_invariant inv_step by blast

lemma run_simulates:
  assumes "reach s t" and "inv s"
  shows "astep\<^sup>*\<^sup>* (abs s) (abs t)"
  using assms(1)
proof (rule reach_induct)
  fix t u
  assume "reach s t" and run: "astep\<^sup>*\<^sup>* (abs s) (abs t)" and "step t u"
  then have "abs u = abs t \<or> astep (abs t) (abs u)" using run_inv [OF _ assms(2)] simulates by blast
  with run show "astep\<^sup>*\<^sup>* (abs s) (abs u)" by (metis rtranclp.rtrancl_into_rtrancl)
qed simp

lemma run_abstract_invariant:
  assumes "reach s t" and "inv s" and "A (abs s)" and "\<And>a b. astep a b \<Longrightarrow> A a \<Longrightarrow> A b"
  shows "A (abs t)"
  using run_simulates [OF assms(1,2)] assms(3,4) by (induction rule: rtranclp_induct) auto

end

locale ranked_steps =
  fixes step :: "'s \<Rightarrow> 's \<Rightarrow> bool" and rank :: "'s \<Rightarrow> nat"
  assumes rank_falls: "step s t \<Longrightarrow> rank t < rank s"
begin

lemma run_length: "(step ^^ n) s t \<Longrightarrow> n + rank t \<le> rank s"
proof (induction n arbitrary: t)
  case (Suc n)
  then obtain u where "(step ^^ n) s u" "step u t" by auto
  with Suc.IH [of u] rank_falls [of u t] show ?case by simp
qed simp

lemma reaches_end: "\<exists>t. step\<^sup>*\<^sup>* s t \<and> (\<nexists>u. step t u)"
proof (induction "rank s" arbitrary: s rule: less_induct)
  case less
  show ?case
  proof (cases "\<exists>u. step s u")
    case True
    then obtain u where u: "step s u" by blast
    from less [OF rank_falls [OF u]] u show ?thesis by (meson converse_rtranclp_into_rtranclp)
  qed auto
qed

end

end
