(* ===== verification/Agent_Backoff.thy ===== *)
theory Agent_Backoff
  imports Medusa_Prelude
begin

text \<open>
  The reconnection delay (\<open>nextBackoff\<close> of \<^verbatim>\<open>MedusaUserlandAgent/WebSocketWorker.go\<close>). The delay
  is computed in \<open>float64\<close>; every value that occurs is an integer, so a float is modelled as an
  integer that fits 53 significant bits or an infinity: conversion from \<open>int64\<close> rounds to nearest
  even, a product with a power of two is exact until it overflows to infinity, and conversion of a
  value out of range to \<open>int64\<close> gives the smallest \<open>int64\<close>, as amd64 does. Durations are
  \<open>int64\<close> nanoseconds, here \<open>int\<close> with the wrap-around of the last addition written out.
\<close>

section \<open>Floats\<close>

datatype f64 = Fin int | PInf | NInf

text \<open>The number of low bits an \<open>int64\<close> loses.\<close>

fun excess_bits :: "nat \<Rightarrow> int \<Rightarrow> nat" where
  "excess_bits 0 m = 0"
| "excess_bits (Suc k) m = (if m < 2 ^ 53 then 0 else Suc (excess_bits k (m div 2)))"

definition f64_of_int64 :: "int \<Rightarrow> f64" where
  "f64_of_int64 x =
     (let m = \<bar>x\<bar>; e = excess_bits 11 m; q = m div 2 ^ e; r = m mod 2 ^ e;
          q' = (if 0 < e \<and> (2 * r > 2 ^ e \<or> 2 * r = 2 ^ e \<and> odd q) then q + 1 else q)
      in Fin (sgn x * (q' * 2 ^ e)))"

fun f64_mul_pow2 :: "f64 \<Rightarrow> nat \<Rightarrow> f64" where
  "f64_mul_pow2 (Fin x) n =
     (if \<bar>x * 2 ^ n\<bar> < 2 ^ 1024 then Fin (x * 2 ^ n) else if 0 < x then PInf else NInf)"
| "f64_mul_pow2 PInf n = PInf"
| "f64_mul_pow2 NInf n = NInf"

fun f64_min :: "f64 \<Rightarrow> f64 \<Rightarrow> f64" where
  "f64_min NInf y = NInf"
| "f64_min x NInf = NInf"
| "f64_min PInf y = y"
| "f64_min x PInf = x"
| "f64_min (Fin x) (Fin y) = Fin (min x y)"

fun int64_of_f64 :: "f64 \<Rightarrow> int" where
  "int64_of_f64 (Fin x) = (if - (2 ^ 63) \<le> x \<and> x < 2 ^ 63 then x else - (2 ^ 63))"
| "int64_of_f64 _ = - (2 ^ 63)"

text \<open>Go's remainder has the sign of the dividend.\<close>

definition go_rem :: "int \<Rightarrow> int \<Rightarrow> int" where
  "go_rem a b = sgn a * (\<bar>a\<bar> mod \<bar>b\<bar>)"

definition wrap64 :: "int \<Rightarrow> int" where
  "wrap64 x = (x + 2 ^ 63) mod 2 ^ 64 - 2 ^ 63"

section \<open>The delay\<close>

definition Millisecond :: int where "Millisecond = 1000000"
definition Second :: int where "Second = 1000 * Millisecond"

record backoff =
  initial :: int
  max_delay :: int
  jitter :: int

text \<open>\<open>NewHydraWS\<close> sets these.\<close>

definition default_backoff :: backoff where
  "default_backoff = \<lparr>initial = 500 * Millisecond, max_delay = 30 * Second, jitter = 250 * Millisecond\<rparr>"

text \<open>\<open>now\<close> is \<open>time.Now().UnixNano()\<close>, \<open>n\<close> the number of failed attempts.\<close>

definition nextBackoff :: "backoff \<Rightarrow> int \<Rightarrow> nat \<Rightarrow> int" where
  "nextBackoff b now n =
     (let base = f64_of_int64 (initial b);
          base = (if base = Fin 0 then f64_of_int64 (500 * Millisecond) else base);
          mx = f64_of_int64 (max_delay b);
          mx = (if mx = Fin 0 then f64_of_int64 (30 * Second) else mx);
          d = int64_of_f64 (f64_min (f64_mul_pow2 base n) mx)
      in if jitter b > 0 then wrap64 (d + go_rem now (jitter b)) else d)"

section \<open>Bounds\<close>

lemma excess_bits_small [simp]: "m < 2 ^ 53 \<Longrightarrow> excess_bits k m = 0"
  by (cases k) simp_all

lemma f64_of_int64_small:
  assumes "\<bar>x\<bar> < 2 ^ 53"
  shows "f64_of_int64 x = Fin x"
  using excess_bits_small [OF assms, of 11] by (simp add: f64_of_int64_def Let_def mult_sgn_abs)

lemma int64_of_f64_id: "0 < x \<Longrightarrow> x < 2 ^ 63 \<Longrightarrow> int64_of_f64 (Fin x) = x"
  by simp

lemma wrap64_sum: "0 < d \<Longrightarrow> d < 2 ^ 53 \<Longrightarrow> 0 \<le> j \<Longrightarrow> j < 2 ^ 53 \<Longrightarrow> wrap64 (d + j) = d + j"
  by (simp add: wrap64_def)

lemma go_rem_bounds: "0 \<le> a \<Longrightarrow> 0 < b \<Longrightarrow> 0 \<le> go_rem a b \<and> go_rem a b < b"
  by (auto simp: go_rem_def sgn_if)

text \<open>Exponential growth up to the cap, in exact integers.\<close>

definition delay_spec :: "backoff \<Rightarrow> nat \<Rightarrow> int" where
  "delay_spec b n = min (initial b * 2 ^ n) (max_delay b)"

lemma delay_float:
  assumes "0 < i" "i < 2 ^ 53" "0 < m" "m < 2 ^ 53"
  shows "int64_of_f64 (f64_min (f64_mul_pow2 (f64_of_int64 i) n) (f64_of_int64 m)) = min (i * 2 ^ n) m"
proof -
  have i: "f64_of_int64 i = Fin i" and m: "f64_of_int64 m = Fin m"
    using assms by (intro f64_of_int64_small; simp)+
  have pos: "0 < i * 2 ^ n" using assms(1) by simp
  have "(2::int) ^ 53 \<le> 2 ^ 1024" by (rule power_increasing) simp_all
  then have big: "\<not> i * 2 ^ n < 2 ^ 1024 \<Longrightarrow> min (i * 2 ^ n) m = m"
    using assms(4) by linarith
  have lo: "0 < min (i * 2 ^ n) m" using pos assms(3) by simp
  have "min (i * 2 ^ n) m \<le> m" by simp
  then have hi: "min (i * 2 ^ n) m < 2 ^ 63" using assms(4) by (simp del: min_le_iff_disj)
  have "f64_min (f64_mul_pow2 (Fin i) n) (Fin m) = Fin (min (i * 2 ^ n) m)"
  proof (cases "i * 2 ^ n < 2 ^ 1024")
    case True
    with pos have "\<bar>i * 2 ^ n\<bar> < 2 ^ 1024" by (simp only: abs_of_pos)
    then show ?thesis by (simp only: f64_mul_pow2.simps f64_min.simps if_True)
  next
    case False
    with pos have "\<not> \<bar>i * 2 ^ n\<bar> < 2 ^ 1024" by (simp only: abs_of_pos not_False_eq_True)
    with assms(1) big [OF False] show ?thesis
      by (simp only: f64_mul_pow2.simps f64_min.simps if_True if_False)
  qed
  then show ?thesis unfolding i m using int64_of_f64_id [OF lo hi] by simp
qed

lemma nextBackoff_bounds:
  assumes "0 < initial b" "initial b < 2 ^ 53" "0 < max_delay b" "max_delay b < 2 ^ 53"
    and "0 < jitter b" "jitter b < 2 ^ 53" and "0 \<le> now"
  shows "nextBackoff b now n = delay_spec b n + now mod jitter b"
proof -
  let ?d = "min (initial b * 2 ^ n) (max_delay b)"
  have nz: "f64_of_int64 (initial b) \<noteq> Fin 0" "f64_of_int64 (max_delay b) \<noteq> Fin 0"
    using assms by (simp_all add: f64_of_int64_small)
  have j: "go_rem now (jitter b) = now mod jitter b" "0 \<le> now mod jitter b"
      "now mod jitter b < jitter b"
    using assms by (auto simp: go_rem_def sgn_if)
  have d: "0 < ?d" "?d < 2 ^ 53" using assms by auto
  have "nextBackoff b now n = wrap64 (?d + now mod jitter b)"
    using nz assms(5) j(1) delay_float [OF assms(1-4), of n]
    by (simp add: nextBackoff_def Let_def)
  also have "\<dots> = ?d + now mod jitter b"
    using d j(2,3) assms(6) by (intro wrap64_sum) linarith+
  finally show ?thesis by (simp add: delay_spec_def)
qed

lemma delay_spec_mono: "0 \<le> initial b \<Longrightarrow> delay_spec b n \<le> delay_spec b (Suc n)"
proof -
  assume "0 \<le> initial b"
  then have "initial b * 2 ^ n \<le> initial b * 2 ^ Suc n" by (intro mult_left_mono) simp_all
  then show ?thesis unfolding delay_spec_def by linarith
qed

lemma default_backoff_simps [simp]:
  "initial default_backoff = 500000000" "max_delay default_backoff = 30000000000"
  "jitter default_backoff = 250000000"
  by (simp_all add: default_backoff_def Millisecond_def Second_def)

lemma delay_capped: "6 \<le> n \<Longrightarrow> delay_spec default_backoff n = 30000000000"
proof -
  assume "6 \<le> n"
  then have "(2::int) ^ 6 \<le> 2 ^ n" by (intro power_increasing) simp_all
  then show ?thesis by (simp add: delay_spec_def)
qed

lemma delay_exponential: "n < 6 \<Longrightarrow> delay_spec default_backoff n = 500000000 * 2 ^ n"
proof -
  assume "n < 6"
  then have "(2::int) ^ n \<le> 2 ^ 5" by (intro power_increasing) simp_all
  then show ?thesis by (simp add: delay_spec_def)
qed

section \<open>Properties\<close>

text \<open>C18. For a configuration of positive durations that a \<open>float64\<close> holds exactly
  (below \<open>2 ^ 53\<close> ns, some hundred days), the delay computed in floating point is the exact
  exponential with its cap plus the clock's remainder as jitter: for every number of attempts, also
  those for which the power is no longer finite.\<close>

theorem nextBackoff_exact:
  assumes "0 < initial b" "initial b < 2 ^ 53" "0 < max_delay b" "max_delay b < 2 ^ 53"
    and "0 < jitter b" "jitter b < 2 ^ 53" and "0 \<le> now"
  shows "nextBackoff b now n = min (initial b * 2 ^ n) (max_delay b) + now mod jitter b"
  using nextBackoff_bounds [OF assms, of n] by (simp add: delay_spec_def)

theorem nextBackoff_exact_witness:
  "nextBackoff default_backoff 1700000000123456789 3 = 4000000000 + 123456789"
  using nextBackoff_exact [of default_backoff 1700000000123456789 3] by simp

text \<open>With the configuration of \<open>NewHydraWS\<close> the client waits 0.5 s, 1 s, 2 s,
  4 s, 8 s, 16 s and from then on 30 s, each time plus less than 250 ms; the delay never shrinks by
  more than the jitter and never exceeds 30.25 s.\<close>

lemma default_schedule:
  assumes "0 \<le> now" and "0 \<le> now'"
  shows "nextBackoff default_backoff now n - now mod 250000000 =
      (if n < 6 then 500000000 * 2 ^ n else 30000000000) \<and>
    nextBackoff default_backoff now n < 30250000000 \<and>
    nextBackoff default_backoff now n < nextBackoff default_backoff now' (Suc n) + 250000000"
proof -
  have eq: "nextBackoff default_backoff t k = delay_spec default_backoff k + t mod 250000000"
    if "0 \<le> t" for t k
    using nextBackoff_bounds [of default_backoff t k] that by simp
  have cap: "delay_spec default_backoff n \<le> 30000000000"
    by (simp add: delay_spec_def)
  have mono: "delay_spec default_backoff n \<le> delay_spec default_backoff (Suc n)"
    by (rule delay_spec_mono) simp
  have j: "now mod 250000000 < 250000000" "0 \<le> now' mod 250000000" by simp_all
  show ?thesis
    using eq [OF assms(1)] eq [OF assms(2)] cap mono j
    by (auto simp: delay_exponential delay_capped)
qed

end
