(* ===== verification/Agent_WS.thy ===== *)
theory Agent_WS
  imports AC_Event Go_Channel Transition Agent_Backoff "HOL-Library.Multiset"
begin

text \<open>
  The agent's WebSocket client (\<^verbatim>\<open>MedusaUserlandAgent/WebSocketWorker.go\<close>): \<open>HydraWS\<close> with its
  goroutines. There is one relation per function of the source (\<open>eventPump\<close>, \<open>run\<close> with
  \<open>connect\<close>, \<open>readLoop\<close>, \<open>writeLoop\<close>, \<open>pingLoop\<close>, \<open>SendJSON\<close>, \<open>Close\<close>), each with one rule
  per blocking point or select case, and \<open>ws_step\<close> lets any of them move. Every successful dial
  makes a new connection and starts one reader, one writer and one pinger; the three of round
  \<open>k\<close> take the connection from \<open>h.conn\<close> when they begin to run, which need not be the one they
  were started for. The network is the environment: a read or a write may fail at any time, and a
  write on a closed connection always fails. The record's last fields are history, which no guard
  reads.
\<close>

section \<open>State\<close>

text \<open>\<open>None\<close> is the nil slice, which only the zero value of a closed channel carries.\<close>

record wsFrame =
  mt :: msg_type
  data :: "u8 list option"

datatype pump_pc = PumpSelect | PumpHold wsFrame | PumpReturned

datatype run_pc = RunConnect nat | RunDialing nat | RunSleep nat | RunWait nat | RunClosing | RunReturned

text \<open>A loop of one round: not started, before it reads \<open>h.conn\<close>, at its blocking point with its
  connection, inside \<open>WriteMessage\<close> with a frame, or returned.\<close>

datatype worker = Absent | Starting | Selecting nat | Writing nat wsFrame | Returned

datatype close_pc = NotClosing | CloseCancelled | CloseWaiting | CloseReturned

record HydraWS =
  URL :: string
  Header :: "(string \<times> string list) list"
  OnMessage :: nat \<comment> \<open>which callback; \<open>0\<close> is the one that does nothing\<close>
  extCh :: "ACEvent chan"
  sendCh :: "wsFrame chan"
  pingIntv :: int
  backoff_cfg :: backoff
  cancelled :: bool
  h_conn :: "nat option"
  pump :: pump_pc
  runner :: run_pc
  readers :: "nat \<Rightarrow> worker"
  writers :: "nat \<Rightarrow> worker"
  pingers :: "nat \<Rightarrow> worker"
  closer :: close_pc
  conns_made :: nat
  conns_closed :: "nat set"
  panicked :: bool
  pumped :: "ACEvent list" \<comment> \<open>taken from \<open>extCh\<close>\<close>
  queued :: "wsFrame list" \<comment> \<open>put into \<open>sendCh\<close>\<close>
  dequeued :: "wsFrame list" \<comment> \<open>taken from \<open>sendCh\<close>\<close>
  wire :: "(nat \<times> wsFrame) list" \<comment> \<open>written, with the connection\<close>
  lost :: "wsFrame list" \<comment> \<open>taken from \<open>sendCh\<close>, and the write failed\<close>
  handled :: "(nat \<times> u8 list) list" \<comment> \<open>given to \<open>OnMessage\<close>, with the callback\<close>

definition NewHydraWS :: "string \<Rightarrow> ACEvent chan \<Rightarrow> HydraWS" where
  "NewHydraWS url eventCh =
     \<lparr>URL = url, Header = [], OnMessage = 0, extCh = eventCh, sendCh = make_chan 1024, pingIntv = 20 * Second,
      backoff_cfg = default_backoff, cancelled = False, h_conn = None, pump = PumpSelect,
      runner = RunConnect 0, readers = (\<lambda>_. Absent), writers = (\<lambda>_. Absent),
      pingers = (\<lambda>_. Absent), closer = NotClosing, conns_made = 0, conns_closed = {},
      panicked = False, pumped = [], queued = [], dequeued = [], wire = [], lost = [],
      handled = []\<rparr>"

definition event_frame :: "padding \<Rightarrow> ACEvent \<Rightarrow> wsFrame" where
  "event_frame pad ev = \<lparr>mt = BinaryMessage, data = Some (evToBytes pad ev)\<rparr>"

definition ping_frame :: wsFrame where
  "ping_frame = \<lparr>mt = PingMessage, data = None\<rparr>"

text \<open>The chained setters, which run while the goroutines already do.\<close>

definition WithHeader :: "(string \<times> string list) list \<Rightarrow> HydraWS \<Rightarrow> HydraWS" where
  "WithHeader hdr h = h\<lparr>Header := hdr\<rparr>"

definition WithPingInterval :: "int \<Rightarrow> HydraWS \<Rightarrow> HydraWS" where
  "WithPingInterval d h = h\<lparr>pingIntv := d\<rparr>"

definition WithOnMessage :: "nat \<Rightarrow> HydraWS \<Rightarrow> HydraWS" where
  "WithOnMessage f h = h\<lparr>OnMessage := f\<rparr>"

lemmas with_defs = WithHeader_def WithPingInterval_def WithOnMessage_def

text \<open>Closing the current connection, as \<open>run\<close> and \<open>Close\<close> do under the lock.\<close>

definition drop_conn :: "HydraWS \<Rightarrow> HydraWS" where
  "drop_conn h =
     (case h_conn h of
        None \<Rightarrow> h
      | Some c \<Rightarrow> h\<lparr>conns_closed := insert c (conns_closed h), h_conn := None\<rparr>)"

section \<open>The goroutines\<close>

text \<open>A producer outside the client puts an event into the channel the client reads.\<close>

inductive produce_step :: "HydraWS \<Rightarrow> HydraWS \<Rightarrow> bool" where
  produce: "wf_ACEvent ev \<Longrightarrow> chan_send (extCh h) ev = Sent ch \<Longrightarrow> produce_step h (h\<lparr>extCh := ch\<rparr>)"

inductive eventPump_step :: "HydraWS \<Rightarrow> HydraWS \<Rightarrow> bool" where
  pump_recv: "pump h = PumpSelect \<Longrightarrow> chan_recv (extCh h) = Received ev ch \<Longrightarrow>
    eventPump_step h (h\<lparr>extCh := ch, pumped := pumped h @ [ev], pump := PumpHold (event_frame pad ev)\<rparr>)"
| pump_closed: "pump h = PumpSelect \<Longrightarrow> chan_recv (extCh h) = RecvClosed \<Longrightarrow>
    eventPump_step h (h\<lparr>pump := PumpReturned\<rparr>)"
| pump_send: "pump h = PumpHold f \<Longrightarrow> chan_send (sendCh h) f = Sent ch \<Longrightarrow>
    eventPump_step h (h\<lparr>sendCh := ch, queued := queued h @ [f], pump := PumpSelect\<rparr>)"
| pump_panic: "pump h = PumpHold f \<Longrightarrow> chan_send (sendCh h) f = SendPanics \<Longrightarrow>
    eventPump_step h (h\<lparr>panicked := True\<rparr>)"
| pump_done: "pump h \<noteq> PumpReturned \<Longrightarrow> cancelled h \<Longrightarrow> eventPump_step h (h\<lparr>pump := PumpReturned\<rparr>)"

text \<open>\<open>connect\<close>: the test of the context, the dial and, on success, the new connection; \<open>run\<close> then
  starts the three loops of the round. A failed dial ends \<open>run\<close> if it failed for the cancelled
  context, and otherwise leads through the sleep to the next attempt.\<close>

inductive connect_step :: "HydraWS \<Rightarrow> HydraWS \<Rightarrow> bool" where
  connect_refused: "runner h = RunConnect n \<Longrightarrow> cancelled h \<Longrightarrow>
    connect_step h (h\<lparr>runner := RunReturned\<rparr>)"
| connect_dial: "runner h = RunConnect n \<Longrightarrow> \<not> cancelled h \<Longrightarrow>
    connect_step h (h\<lparr>runner := RunDialing n\<rparr>)"
| dial_ok: "runner h = RunDialing n \<Longrightarrow> k = conns_made h \<Longrightarrow>
    connect_step h (h\<lparr>h_conn := Some k, conns_made := Suc k, runner := RunWait k,
      readers := (readers h)(k := Starting), writers := (writers h)(k := Starting),
      pingers := (pingers h)(k := Starting)\<rparr>)"
| dial_error: "runner h = RunDialing n \<Longrightarrow> connect_step h (h\<lparr>runner := RunSleep n\<rparr>)"
| dial_cancelled: "runner h = RunDialing n \<Longrightarrow> cancelled h \<Longrightarrow>
    connect_step h (h\<lparr>runner := RunReturned\<rparr>)"

inductive run_step :: "HydraWS \<Rightarrow> HydraWS \<Rightarrow> bool" where
  run_connect: "connect_step h h' \<Longrightarrow> run_step h h'"
| run_wake: "runner h = RunSleep n \<Longrightarrow> run_step h (h\<lparr>runner := RunConnect (Suc n)\<rparr>)"
| run_select: "runner h = RunWait k \<Longrightarrow>
    readers h k = Returned \<or> writers h k = Returned \<or> pingers h k = Returned \<or> cancelled h \<Longrightarrow>
    run_step h (h\<lparr>runner := RunClosing\<rparr>)"
| run_close: "runner h = RunClosing \<Longrightarrow>
    run_step h ((drop_conn h)\<lparr>runner := (if cancelled h then RunReturned else RunConnect 0)\<rparr>)"

text \<open>What a loop of round \<open>k\<close> does first: take the connection, or return without one.\<close>

definition start_worker :: "nat option \<Rightarrow> worker" where
  "start_worker c = (case c of None \<Rightarrow> Returned | Some c \<Rightarrow> Selecting c)"

inductive readLoop_step :: "nat \<Rightarrow> HydraWS \<Rightarrow> HydraWS \<Rightarrow> bool" where
  reader_start: "readers h k = Starting \<Longrightarrow>
    readLoop_step k h (h\<lparr>readers := (readers h)(k := start_worker (h_conn h))\<rparr>)"
| reader_message: "readers h k = Selecting c \<Longrightarrow> m = TextMessage \<or> m = BinaryMessage \<Longrightarrow>
    readLoop_step k h (h\<lparr>handled := handled h @ [(OnMessage h, msg)]\<rparr>)"
| reader_skip: "readers h k = Selecting c \<Longrightarrow> m \<noteq> TextMessage \<Longrightarrow> m \<noteq> BinaryMessage \<Longrightarrow>
    readLoop_step k h h"
| reader_error: "readers h k = Selecting c \<Longrightarrow>
    readLoop_step k h (h\<lparr>readers := (readers h)(k := Returned)\<rparr>)"

inductive writeLoop_step :: "nat \<Rightarrow> HydraWS \<Rightarrow> HydraWS \<Rightarrow> bool" where
  writer_start: "writers h k = Starting \<Longrightarrow>
    writeLoop_step k h (h\<lparr>writers := (writers h)(k := start_worker (h_conn h))\<rparr>)"
| writer_recv: "writers h k = Selecting c \<Longrightarrow> chan_recv (sendCh h) = Received fr ch \<Longrightarrow>
    writeLoop_step k h (h\<lparr>sendCh := ch, dequeued := dequeued h @ [fr],
      writers := (writers h)(k := (if data fr = None then Returned else Writing c fr)),
      lost := (if data fr = None then lost h @ [fr] else lost h)\<rparr>)"
| writer_closed: "writers h k = Selecting c \<Longrightarrow> chan_recv (sendCh h) = RecvClosed \<Longrightarrow>
    writeLoop_step k h (h\<lparr>writers := (writers h)(k := Returned)\<rparr>)"
| writer_ok: "writers h k = Writing c fr \<Longrightarrow> c \<notin> conns_closed h \<Longrightarrow>
    writeLoop_step k h (h\<lparr>wire := wire h @ [(c, fr)], writers := (writers h)(k := Selecting c)\<rparr>)"
| writer_error: "writers h k = Writing c fr \<Longrightarrow>
    writeLoop_step k h (h\<lparr>lost := lost h @ [fr], writers := (writers h)(k := Returned)\<rparr>)"
| writer_done: "writers h k = Selecting c \<Longrightarrow> cancelled h \<Longrightarrow>
    writeLoop_step k h (h\<lparr>writers := (writers h)(k := Returned)\<rparr>)"

inductive pingLoop_step :: "nat \<Rightarrow> HydraWS \<Rightarrow> HydraWS \<Rightarrow> bool" where
  pinger_start: "pingers h k = Starting \<Longrightarrow>
    pingLoop_step k h (h\<lparr>pingers := (pingers h)(k := start_worker (h_conn h))\<rparr>)"
| pinger_tick: "pingers h k = Selecting c \<Longrightarrow>
    pingLoop_step k h (h\<lparr>pingers := (pingers h)(k := Writing c ping_frame)\<rparr>)"
| pinger_ok: "pingers h k = Writing c fr \<Longrightarrow> c \<notin> conns_closed h \<Longrightarrow>
    pingLoop_step k h (h\<lparr>pingers := (pingers h)(k := Selecting c)\<rparr>)"
| pinger_error: "pingers h k = Writing c fr \<Longrightarrow>
    pingLoop_step k h (h\<lparr>pingers := (pingers h)(k := Returned)\<rparr>)"
| pinger_done: "pingers h k = Selecting c \<Longrightarrow> cancelled h \<Longrightarrow>
    pingLoop_step k h (h\<lparr>pingers := (pingers h)(k := Returned)\<rparr>)"

text \<open>\<open>SendJSON\<close> with the marshalled bytes, by any caller; with the context done it may also return
  the error "closed", which changes nothing.\<close>

inductive SendJSON_step :: "u8 list \<Rightarrow> HydraWS \<Rightarrow> HydraWS \<Rightarrow> bool" where
  json_sent: "f = \<lparr>mt = TextMessage, data = Some b\<rparr> \<Longrightarrow> chan_send (sendCh h) f = Sent ch \<Longrightarrow>
    SendJSON_step b h (h\<lparr>sendCh := ch, queued := queued h @ [f]\<rparr>)"
| json_panic: "f = \<lparr>mt = TextMessage, data = Some b\<rparr> \<Longrightarrow> chan_send (sendCh h) f = SendPanics \<Longrightarrow>
    SendJSON_step b h (h\<lparr>panicked := True\<rparr>)"
| json_closed: "cancelled h \<Longrightarrow> SendJSON_step b h h"

definition idle :: "worker \<Rightarrow> bool" where
  "idle w \<longleftrightarrow> w = Absent \<or> w = Returned"

text \<open>\<open>h.wg.Wait()\<close>: every goroutine the client started has returned.\<close>

definition all_returned :: "HydraWS \<Rightarrow> bool" where
  "all_returned h \<longleftrightarrow> pump h = PumpReturned \<and> runner h = RunReturned \<and>
     (\<forall>k < conns_made h. idle (readers h k) \<and> idle (writers h k) \<and> idle (pingers h k))"

inductive HydraWS_Close_step :: "HydraWS \<Rightarrow> HydraWS \<Rightarrow> bool" where
  close_cancel: "closer h = NotClosing \<or> closer h = CloseReturned \<Longrightarrow>
    HydraWS_Close_step h (h\<lparr>cancelled := True, closer := CloseCancelled\<rparr>)"
| close_conn: "closer h = CloseCancelled \<Longrightarrow> HydraWS_Close_step h ((drop_conn h)\<lparr>closer := CloseWaiting\<rparr>)"
| close_channel: "closer h = CloseWaiting \<Longrightarrow> all_returned h \<Longrightarrow> chan_close (sendCh h) = Closed ch \<Longrightarrow>
    HydraWS_Close_step h (h\<lparr>sendCh := ch, closer := CloseReturned\<rparr>)"
| close_panic: "closer h = CloseWaiting \<Longrightarrow> all_returned h \<Longrightarrow> chan_close (sendCh h) = ClosePanics \<Longrightarrow>
    HydraWS_Close_step h (h\<lparr>panicked := True\<rparr>)"

inductive configure_step :: "HydraWS \<Rightarrow> HydraWS \<Rightarrow> bool" where
  set_header: "configure_step h (WithHeader hdr h)"
| set_ping: "configure_step h (WithPingInterval d h)"
| set_handler: "configure_step h (WithOnMessage f h)"

inductive ws_step :: "HydraWS \<Rightarrow> HydraWS \<Rightarrow> bool" where
  ws_produce: "\<not> panicked h \<Longrightarrow> produce_step h h' \<Longrightarrow> ws_step h h'"
| ws_pump: "\<not> panicked h \<Longrightarrow> eventPump_step h h' \<Longrightarrow> ws_step h h'"
| ws_run: "\<not> panicked h \<Longrightarrow> run_step h h' \<Longrightarrow> ws_step h h'"
| ws_read: "\<not> panicked h \<Longrightarrow> readLoop_step k h h' \<Longrightarrow> ws_step h h'"
| ws_write: "\<not> panicked h \<Longrightarrow> writeLoop_step k h h' \<Longrightarrow> ws_step h h'"
| ws_ping: "\<not> panicked h \<Longrightarrow> pingLoop_step k h h' \<Longrightarrow> ws_step h h'"
| ws_json: "\<not> panicked h \<Longrightarrow> SendJSON_step b h h' \<Longrightarrow> ws_step h h'"
| ws_configure: "\<not> panicked h \<Longrightarrow> configure_step h h' \<Longrightarrow> ws_step h h'"
| ws_close: "\<not> panicked h \<Longrightarrow> HydraWS_Close_step h h' \<Longrightarrow> ws_step h h'"

inductive ws_reachable :: "HydraWS \<Rightarrow> HydraWS \<Rightarrow> bool" for h0 where
  ws_start: "ws_reachable h0 h0"
| ws_more: "ws_reachable h0 h \<Longrightarrow> ws_step h h' \<Longrightarrow> ws_reachable h0 h'"

section \<open>Invariants\<close>

definition send_queue_inv :: "HydraWS \<Rightarrow> bool" where
  "send_queue_inv h \<longleftrightarrow> wf_chan (sendCh h) \<and> ch_cap (sendCh h) = 1024 \<and> queued h = dequeued h @ ch_buf (sendCh h) \<and>
     (\<forall>f \<in> set (queued h). data f \<noteq> None) \<and> (\<forall>f. pump h = PumpHold f \<longrightarrow> data f \<noteq> None)"

fun holding :: "worker \<Rightarrow> wsFrame list" where
  "holding (Writing c fr) = [fr]"
| "holding _ = []"

text \<open>Every frame taken from the queue was written once, was lost in a failed write, or is in the
  hands of a writer.\<close>

definition conservation_inv :: "HydraWS \<Rightarrow> bool" where
  "conservation_inv h \<longleftrightarrow>
     mset (dequeued h) = mset (map snd (wire h)) + mset (lost h) +
       (\<Sum>k < conns_made h. mset (holding (writers h k))) \<and>
     (\<forall>k \<ge> conns_made h. readers h k = Absent \<and> writers h k = Absent \<and> pingers h k = Absent)"

text \<open>Until a second connection is made there is one writer, and it keeps the order.\<close>

definition first_round_inv :: "HydraWS \<Rightarrow> bool" where
  "first_round_inv h \<longleftrightarrow> (conns_made h \<le> 1 \<longrightarrow>
     dequeued h = map snd (wire h) @ lost h @ holding (writers h 0) \<and>
     (lost h \<noteq> [] \<longrightarrow> writers h 0 = Returned \<and> length (lost h) = 1) \<and>
     (conns_made h = 0 \<longrightarrow> dequeued h = []))"

text \<open>A writer that loses a frame returns, so a round loses at most one.\<close>

definition ended_rounds :: "HydraWS \<Rightarrow> nat set" where
  "ended_rounds h = {k. k < conns_made h \<and> writers h k = Returned}"

definition loss_inv :: "HydraWS \<Rightarrow> bool" where
  "loss_inv h \<longleftrightarrow> length (lost h) \<le> card (ended_rounds h)"

text \<open>The events of the binary frames, as the backend would decode them.\<close>

definition frame_ACEvents :: "wsFrame list \<Rightarrow> ACEvent list" where
  "frame_ACEvents fs =
     map (\<lambda>f. ACEvent_of_bytes (the (data f))) (filter (\<lambda>f. mt f = BinaryMessage) fs)"

definition pump_frames :: "pump_pc \<Rightarrow> wsFrame list" where
  "pump_frames p = (case p of PumpHold f \<Rightarrow> [f] | _ \<Rightarrow> [])"

text \<open>What the pump took it has put into the queue, in order, or holds; only a cancelled client
  drops the one event it holds.\<close>

definition pump_inv :: "HydraWS \<Rightarrow> bool" where
  "pump_inv h \<longleftrightarrow>
     (\<forall>ev \<in> set (ch_buf (extCh h)). wf_ACEvent ev) \<and>
     (\<forall>f. pump h = PumpHold f \<longrightarrow> mt f = BinaryMessage) \<and>
     (\<forall>f \<in> set (queued h @ pump_frames (pump h)). mt f = BinaryMessage \<longrightarrow>
        length (the (data f)) = ACEvent_size) \<and>
     (pumped h = frame_ACEvents (queued h @ pump_frames (pump h)) \<or>
      (cancelled h \<and> pump h = PumpReturned \<and>
       (\<exists>ev. pumped h = frame_ACEvents (queued h) @ [ev])))"

text \<open>The queue is closed only when nothing can use it any more.\<close>

definition close_inv :: "HydraWS \<Rightarrow> bool" where
  "close_inv h \<longleftrightarrow> (ch_closed (sendCh h) \<longrightarrow> all_returned h \<and> cancelled h) \<and>
     (closer h \<noteq> NotClosing \<longrightarrow> cancelled h) \<and> (closer h = CloseReturned \<longrightarrow> ch_closed (sendCh h))"

section \<open>Every step keeps them\<close>

lemma ws_step_inv:
  assumes "ws_step h h'" and "I h"
    and "\<And>h h'. produce_step h h' \<Longrightarrow> I h \<Longrightarrow> I h'" and "\<And>h h'. eventPump_step h h' \<Longrightarrow> I h \<Longrightarrow> I h'"
    and "\<And>h h'. run_step h h' \<Longrightarrow> I h \<Longrightarrow> I h'" and "\<And>k h h'. readLoop_step k h h' \<Longrightarrow> I h \<Longrightarrow> I h'"
    and "\<And>k h h'. writeLoop_step k h h' \<Longrightarrow> I h \<Longrightarrow> I h'"
    and "\<And>k h h'. pingLoop_step k h h' \<Longrightarrow> I h \<Longrightarrow> I h'"
    and "\<And>b h h'. SendJSON_step b h h' \<Longrightarrow> I h \<Longrightarrow> I h'"
    and "\<And>h h'. configure_step h h' \<Longrightarrow> I h \<Longrightarrow> I h'" and "\<And>h h'. HydraWS_Close_step h h' \<Longrightarrow> I h \<Longrightarrow> I h'"
  shows "I h'"
  using assms by (auto elim!: ws_step.cases)

interpretation ws: transition_system ws_step ws_reachable
proof
  fix s t P
  assume r: "ws_reachable s t" "P s" and st: "\<And>t u. ws_reachable s t \<Longrightarrow> P t \<Longrightarrow> ws_step t u \<Longrightarrow> P u"
  from r show "P t" by (induction rule: ws_reachable.induct) (auto intro: st)
qed (auto intro: ws_reachable.intros)

lemmas ws_reachable_inv = ws.reach_invariant
lemmas ws_reachable_trans = ws.reach_trans
lemmas ws_one = ws.reach_one

lemma drop_conn_fields [simp]:
  "sendCh (drop_conn h) = sendCh h" "extCh (drop_conn h) = extCh h" "pump (drop_conn h) = pump h"
  "readers (drop_conn h) = readers h" "writers (drop_conn h) = writers h"
  "pingers (drop_conn h) = pingers h" "conns_made (drop_conn h) = conns_made h"
  "cancelled (drop_conn h) = cancelled h" "closer (drop_conn h) = closer h"
  "runner (drop_conn h) = runner h" "queued (drop_conn h) = queued h"
  "dequeued (drop_conn h) = dequeued h" "pumped (drop_conn h) = pumped h"
  "wire (drop_conn h) = wire h" "lost (drop_conn h) = lost h" "panicked (drop_conn h) = panicked h"
  by (simp_all add: drop_conn_def split: option.splits)

lemma start_worker_cases [simp]:
  "holding (start_worker c) = []" "start_worker c \<noteq> Absent" "start_worker c \<noteq> Starting"
  "start_worker c \<noteq> Writing d f"
  by (simp_all add: start_worker_def split: option.splits)

lemmas step_elims = produce_step.cases eventPump_step.cases run_step.cases connect_step.cases
  readLoop_step.cases writeLoop_step.cases pingLoop_step.cases SendJSON_step.cases
  configure_step.cases HydraWS_Close_step.cases

subsection \<open>The queue\<close>

lemma send_queue_steps:
  "produce_step h h' \<Longrightarrow> send_queue_inv h \<Longrightarrow> send_queue_inv h'"
  "eventPump_step h h' \<Longrightarrow> send_queue_inv h \<Longrightarrow> send_queue_inv h'"
  "run_step h h' \<Longrightarrow> send_queue_inv h \<Longrightarrow> send_queue_inv h'"
  "readLoop_step k h h' \<Longrightarrow> send_queue_inv h \<Longrightarrow> send_queue_inv h'"
  "writeLoop_step k h h' \<Longrightarrow> send_queue_inv h \<Longrightarrow> send_queue_inv h'"
  "pingLoop_step k h h' \<Longrightarrow> send_queue_inv h \<Longrightarrow> send_queue_inv h'"
  "SendJSON_step b h h' \<Longrightarrow> send_queue_inv h \<Longrightarrow> send_queue_inv h'"
  "HydraWS_Close_step h h' \<Longrightarrow> send_queue_inv h \<Longrightarrow> send_queue_inv h'"
  "configure_step h h' \<Longrightarrow> send_queue_inv h \<Longrightarrow> send_queue_inv h'"
  by (auto simp: send_queue_inv_def loop_simps wf_chan_def event_frame_def with_defs
      elim!: step_elims)

subsection \<open>Conservation\<close>

lemma holding_sum_upd:
  fixes k n :: nat and w :: "nat \<Rightarrow> worker"
  assumes "k < n"
  shows "(\<Sum>j<n. mset (holding ((w(k := x)) j))) + mset (holding (w k)) =
    (\<Sum>j<n. mset (holding (w j))) + mset (holding x)"
proof -
  have r: "(\<Sum>j<n. f j) = f k + (\<Sum>j\<in>{..<n} - {k}. f j)" for f :: "nat \<Rightarrow> wsFrame multiset"
    using assms by (intro sum.remove) auto
  have "(\<Sum>j\<in>{..<n} - {k}. mset (holding ((w(k := x)) j))) =
      (\<Sum>j\<in>{..<n} - {k}. mset (holding (w j)))"
    by (intro sum.cong) auto
  then show ?thesis
    using r [of "\<lambda>j. mset (holding ((w(k := x)) j))"] r [of "\<lambda>j. mset (holding (w j))"]
    by (simp add: ac_simps)
qed

lemma live_writer_bound:
  assumes "conservation_inv h" and "writers h k \<noteq> Absent"
  shows "k < conns_made h"
  using assms by (metis conservation_inv_def not_less)

lemma conservation_write:
  assumes "writeLoop_step k h h'" and "conservation_inv h"
  shows "conservation_inv h'"
proof -
  have k: "k < conns_made h"
    using assms by (auto elim!: writeLoop_step.cases intro!: live_writer_bound)
  note upd = holding_sum_upd [OF k, of "writers h"]
  from assms show ?thesis
    using k upd
    by (cases rule: writeLoop_step.cases)
      (auto simp: conservation_inv_def loop_simps ac_simps)
qed

lemma conservation_quiet:
  assumes "conservation_inv h" and "dequeued h' = dequeued h" and "wire h' = wire h"
    and "lost h' = lost h" and "conns_made h' = conns_made h" and "writers h' = writers h"
    and "\<And>k. readers h k = Absent \<Longrightarrow> readers h' k = Absent"
    and "\<And>k. pingers h k = Absent \<Longrightarrow> pingers h' k = Absent"
  shows "conservation_inv h'"
  using assms by (auto simp: conservation_inv_def)

lemma conservation_connect:
  assumes "connect_step h h'" and "conservation_inv h"
  shows "conservation_inv h'"
  using assms
proof (cases rule: connect_step.cases)
  case (dial_ok n k)
  have "(\<Sum>j<k. mset (holding (((writers h)(k := Starting)) j))) = (\<Sum>j<k. mset (holding (writers h j)))"
    by (intro sum.cong) auto
  then show ?thesis
    using assms(2) dial_ok by (auto simp: conservation_inv_def)
qed (auto intro: conservation_quiet)

lemma conservation_steps:
  "produce_step h h' \<Longrightarrow> conservation_inv h \<Longrightarrow> conservation_inv h'"
  "eventPump_step h h' \<Longrightarrow> conservation_inv h \<Longrightarrow> conservation_inv h'"
  "run_step h h' \<Longrightarrow> conservation_inv h \<Longrightarrow> conservation_inv h'"
  "SendJSON_step b h h' \<Longrightarrow> conservation_inv h \<Longrightarrow> conservation_inv h'"
  "configure_step h h' \<Longrightarrow> conservation_inv h \<Longrightarrow> conservation_inv h'"
  "HydraWS_Close_step h h' \<Longrightarrow> conservation_inv h \<Longrightarrow> conservation_inv h'"
  by (auto simp: with_defs intro: conservation_connect elim: conservation_quiet
      elim!: produce_step.cases eventPump_step.cases run_step.cases SendJSON_step.cases
        configure_step.cases HydraWS_Close_step.cases)

lemma conservation_loops:
  "readLoop_step k h h' \<Longrightarrow> conservation_inv h \<Longrightarrow> conservation_inv h'"
  "pingLoop_step k h h' \<Longrightarrow> conservation_inv h \<Longrightarrow> conservation_inv h'"
  by (auto simp: conservation_inv_def elim!: readLoop_step.cases pingLoop_step.cases)

subsection \<open>Order within the first connection\<close>

lemma first_round_quiet:
  assumes "first_round_inv h" and "dequeued h' = dequeued h" and "wire h' = wire h"
    and "lost h' = lost h" and "conns_made h' = conns_made h" and "writers h' = writers h"
  shows "first_round_inv h'"
  using assms by (auto simp: first_round_inv_def)

lemma first_round_connect:
  assumes "connect_step h h'" and "first_round_inv h" and "conservation_inv h"
  shows "first_round_inv h'"
  using assms
  by (cases rule: connect_step.cases)
    (auto simp: first_round_inv_def conservation_inv_def elim: first_round_quiet)

lemma first_round_write:
  assumes "writeLoop_step k h h'" and "first_round_inv h" and "conservation_inv h"
    and "send_queue_inv h"
  shows "first_round_inv h'"
proof -
  have k: "k < conns_made h"
    using assms by (auto elim!: writeLoop_step.cases intro!: live_writer_bound)
  have nn: "data fr \<noteq> None" if "chan_recv (sendCh h) = Received fr ch" for fr ch
    using assms(4) that by (auto simp: send_queue_inv_def loop_simps)
  from assms(1,2) k show ?thesis
    by (cases rule: writeLoop_step.cases) (auto simp: first_round_inv_def le_Suc_eq nn)
qed

lemma first_round_steps:
  assumes "first_round_inv h" and "conservation_inv h"
  shows "produce_step h h' \<Longrightarrow> first_round_inv h'" and "eventPump_step h h' \<Longrightarrow> first_round_inv h'"
    and "run_step h h' \<Longrightarrow> first_round_inv h'" and "readLoop_step k h h' \<Longrightarrow> first_round_inv h'"
    and "pingLoop_step k h h' \<Longrightarrow> first_round_inv h'" and "SendJSON_step b h h' \<Longrightarrow> first_round_inv h'"
    and "configure_step h h' \<Longrightarrow> first_round_inv h'" and "HydraWS_Close_step h h' \<Longrightarrow> first_round_inv h'"
  using assms
  by (auto simp: with_defs intro: first_round_connect elim: first_round_quiet
      elim!: produce_step.cases eventPump_step.cases run_step.cases SendJSON_step.cases
        readLoop_step.cases pingLoop_step.cases configure_step.cases HydraWS_Close_step.cases)

subsection \<open>Losses\<close>

lemma finite_ended_rounds [simp]: "finite (ended_rounds h)"
  by (simp add: ended_rounds_def)

lemma loss_quiet:
  assumes "loss_inv h" and "lost h' = lost h" and "ended_rounds h \<subseteq> ended_rounds h'"
  shows "loss_inv h'"
  using assms card_mono [OF _ assms(3)] by (simp add: loss_inv_def)

text \<open>A writer that returns ends its round.\<close>

lemma loss_return:
  assumes "loss_inv h" and "writers h' = (writers h)(k := Returned)" and "conns_made h' = conns_made h"
    and "k < conns_made h" and "writers h k \<noteq> Returned" and "length (lost h') \<le> Suc (length (lost h))"
  shows "loss_inv h'"
proof -
  have "ended_rounds h' = insert k (ended_rounds h)" and "k \<notin> ended_rounds h"
    using assms(2-5) by (auto simp: ended_rounds_def)
  with assms(1,6) show ?thesis by (simp add: loss_inv_def)
qed

lemma loss_write:
  assumes "writeLoop_step k h h'" and "loss_inv h" and "conservation_inv h"
  shows "loss_inv h'"
proof -
  have k: "k < conns_made h"
    using assms by (auto elim!: writeLoop_step.cases intro!: live_writer_bound)
  from assms(1) show ?thesis
  proof (cases rule: writeLoop_step.cases)
    case writer_start
    then show ?thesis
      by (intro loss_quiet [OF assms(2)]) (auto simp: ended_rounds_def)
  next
    case (writer_recv c fr ch)
    show ?thesis
    proof (cases "data fr")
      case None
      with writer_recv k show ?thesis by (intro loss_return [OF assms(2), of _ k]) simp_all
    next
      case (Some d)
      with writer_recv show ?thesis by (intro loss_quiet [OF assms(2)]) (auto simp: ended_rounds_def)
    qed
  next
    case (writer_ok c fr)
    then show ?thesis
      by (intro loss_quiet [OF assms(2)]) (auto simp: ended_rounds_def)
  qed (use k in \<open>auto intro: loss_return [OF assms(2), of _ k]\<close>)
qed

lemma loss_steps:
  assumes "loss_inv h" and "conservation_inv h"
  shows "produce_step h h' \<Longrightarrow> loss_inv h'" and "eventPump_step h h' \<Longrightarrow> loss_inv h'"
    and "run_step h h' \<Longrightarrow> loss_inv h'" and "readLoop_step k h h' \<Longrightarrow> loss_inv h'"
    and "pingLoop_step k h h' \<Longrightarrow> loss_inv h'" and "SendJSON_step b h h' \<Longrightarrow> loss_inv h'"
    and "configure_step h h' \<Longrightarrow> loss_inv h'" and "HydraWS_Close_step h h' \<Longrightarrow> loss_inv h'"
  using assms(2)
  by (auto intro!: loss_quiet [OF assms(1)] simp: ended_rounds_def with_defs elim!: step_elims)

subsection \<open>The event pump\<close>

lemma frame_ACEvents_append [simp]:
  "frame_ACEvents (fs @ gs) = frame_ACEvents fs @ frame_ACEvents gs" "frame_ACEvents [] = []"
  by (simp_all add: frame_ACEvents_def)

lemma event_frame_fields [simp]:
  "mt (event_frame pad ev) = BinaryMessage" "data (event_frame pad ev) = Some (evToBytes pad ev)"
  by (simp_all add: event_frame_def)

lemma frame_ACEvents_event [simp]: "wf_ACEvent ev \<Longrightarrow> frame_ACEvents [event_frame pad ev] = [ev]"
  by (simp add: frame_ACEvents_def event_frame_def)

lemma frame_ACEvents_text [simp]: "frame_ACEvents [\<lparr>mt = TextMessage, data = d\<rparr>] = []"
  by (simp add: frame_ACEvents_def)

lemma frame_ACEvents_binary [simp]:
  "mt f = BinaryMessage \<Longrightarrow> frame_ACEvents [f] = [ACEvent_of_bytes (the (data f))]"
  by (simp add: frame_ACEvents_def)

lemma pump_frames_simps [simp]:
  "pump_frames PumpSelect = []" "pump_frames PumpReturned = []" "pump_frames (PumpHold f) = [f]"
  by (simp_all add: pump_frames_def)

lemma pump_inv_pump:
  assumes "eventPump_step h h'" and "pump_inv h"
  shows "pump_inv h'"
  using assms
proof (cases rule: eventPump_step.cases)
  case pump_done
  then show ?thesis
    using assms(2) by (cases "pump h") (auto simp: pump_inv_def)
qed (auto simp: pump_inv_def loop_simps)

lemma pump_steps:
  assumes "pump_inv h"
  shows "produce_step h h' \<Longrightarrow> pump_inv h'" and "run_step h h' \<Longrightarrow> pump_inv h'"
    and "readLoop_step k h h' \<Longrightarrow> pump_inv h'" and "writeLoop_step k h h' \<Longrightarrow> pump_inv h'"
    and "pingLoop_step k h h' \<Longrightarrow> pump_inv h'" and "SendJSON_step b h h' \<Longrightarrow> pump_inv h'"
    and "configure_step h h' \<Longrightarrow> pump_inv h'" and "HydraWS_Close_step h h' \<Longrightarrow> pump_inv h'"
  using assms by (auto simp: pump_inv_def with_defs loop_simps elim!: step_elims)

subsection \<open>Closing\<close>

definition panic_inv :: "HydraWS \<Rightarrow> bool" where
  "panic_inv h \<longleftrightarrow> (panicked h \<longrightarrow> ch_closed (sendCh h))"

lemma quiescent:
  assumes "all_returned h" and "conservation_inv h"
  shows "idle (readers h k)" and "idle (writers h k)" and "idle (pingers h k)"
  using assms unfolding all_returned_def conservation_inv_def idle_def
  by (metis not_less)+

lemma quiescent_steps:
  assumes "all_returned h" and "conservation_inv h"
  shows "\<not> eventPump_step h h'" and "\<not> run_step h h'" and "\<not> readLoop_step k h h'"
    and "\<not> writeLoop_step k h h'" and "\<not> pingLoop_step k h h'"
  using assms quiescent [OF assms, of k]
  by (auto simp: all_returned_def idle_def elim!: step_elims)

lemma close_open:
  assumes "\<not> ch_closed (sendCh h)" and "close_inv h"
  shows "produce_step h h' \<Longrightarrow> close_inv h'" and "eventPump_step h h' \<Longrightarrow> close_inv h'"
    and "run_step h h' \<Longrightarrow> close_inv h'" and "readLoop_step k h h' \<Longrightarrow> close_inv h'"
    and "writeLoop_step k h h' \<Longrightarrow> close_inv h'" and "pingLoop_step k h h' \<Longrightarrow> close_inv h'"
  using assms by (auto simp: close_inv_def loop_simps elim!: step_elims)

lemma close_steps:
  assumes "close_inv h" and "conservation_inv h"
  shows "eventPump_step h h' \<Longrightarrow> close_inv h'" and "run_step h h' \<Longrightarrow> close_inv h'"
    and "readLoop_step k h h' \<Longrightarrow> close_inv h'" and "writeLoop_step k h h' \<Longrightarrow> close_inv h'"
    and "pingLoop_step k h h' \<Longrightarrow> close_inv h'"
  using assms close_open quiescent_steps unfolding close_inv_def by metis+

lemma close_calls:
  assumes "close_inv h"
  shows "produce_step h h' \<Longrightarrow> close_inv h'" and "SendJSON_step b h h' \<Longrightarrow> close_inv h'"
    and "configure_step h h' \<Longrightarrow> close_inv h'" and "HydraWS_Close_step h h' \<Longrightarrow> close_inv h'"
  using assms
  by (auto simp: close_inv_def all_returned_def with_defs loop_simps elim!: step_elims)

lemma panic_steps:
  assumes "panic_inv h"
  shows "produce_step h h' \<Longrightarrow> panic_inv h'" and "eventPump_step h h' \<Longrightarrow> panic_inv h'"
    and "run_step h h' \<Longrightarrow> panic_inv h'" and "readLoop_step k h h' \<Longrightarrow> panic_inv h'"
    and "writeLoop_step k h h' \<Longrightarrow> panic_inv h'" and "pingLoop_step k h h' \<Longrightarrow> panic_inv h'"
    and "SendJSON_step b h h' \<Longrightarrow> panic_inv h'" and "configure_step h h' \<Longrightarrow> panic_inv h'"
    and "HydraWS_Close_step h h' \<Longrightarrow> panic_inv h'"
  using assms by (auto simp: panic_inv_def with_defs loop_simps elim!: step_elims)

section \<open>The reachable states\<close>

definition ws_inv :: "HydraWS \<Rightarrow> bool" where
  "ws_inv h \<longleftrightarrow> send_queue_inv h \<and> conservation_inv h \<and> first_round_inv h \<and> loss_inv h \<and>
     pump_inv h \<and> close_inv h \<and> panic_inv h"

lemma ws_inv_step: "ws_step h h' \<Longrightarrow> ws_inv h \<Longrightarrow> ws_inv h'"
  by (erule ws_step_inv)
    (auto simp: ws_inv_def intro: send_queue_steps conservation_write conservation_steps
      conservation_loops first_round_write first_round_steps loss_write loss_steps pump_inv_pump pump_steps close_steps
      close_calls panic_steps)

lemma ws_inv_init:
  assumes "\<forall>ev \<in> set (ch_buf ch). wf_ACEvent ev"
  shows "ws_inv (NewHydraWS url ch)"
  using assms
  by (simp add: ws_inv_def send_queue_inv_def conservation_inv_def first_round_inv_def
      loss_inv_def pump_inv_def close_inv_def panic_inv_def NewHydraWS_def)

lemma ws_reachable_invs:
  assumes "ws_reachable (NewHydraWS url ch) h" and "\<forall>ev \<in> set (ch_buf ch). wf_ACEvent ev"
  shows "ws_inv h"
  using ws_reachable_inv [where I = ws_inv, OF assms(1) ws_inv_init [OF assms(2)] ws_inv_step] .

section \<open>Properties\<close>

text \<open>The invariants of a client on a channel of well-formed events, for the properties.\<close>

lemma ws_invs:
  assumes "ws_reachable (NewHydraWS url ch) h" and "\<forall>ev \<in> set (ch_buf ch). wf_ACEvent ev"
  shows "send_queue_inv h" "conservation_inv h" "first_round_inv h" "loss_inv h" "pump_inv h"
    "close_inv h" "panic_inv h"
  using ws_reachable_invs [OF assms] by (simp_all add: ws_inv_def)

lemma first_connection_prefixes:
  assumes "ws_reachable (NewHydraWS url ch) h" and "\<forall>ev \<in> set (ch_buf ch). wf_ACEvent ev"
    and "conns_made h \<le> 1"
  shows "\<exists>rest. queued h = map snd (wire h) @ rest"
    and "\<exists>rest. pumped h = frame_ACEvents (map snd (wire h)) @ rest"
proof -
  from ws_invs [OF assms(1,2)] assms(3)
  have q: "queued h = map snd (wire h) @ lost h @ holding (writers h 0) @ ch_buf (sendCh h)"
    by (simp add: send_queue_inv_def first_round_inv_def)
  then show "\<exists>rest. queued h = map snd (wire h) @ rest" by blast
  from ws_invs(5) [OF assms(1,2)] show "\<exists>rest. pumped h = frame_ACEvents (map snd (wire h)) @ rest"
    unfolding pump_inv_def q by auto
qed

text \<open>A client that took one event, queued it and wrote it on its first connection.\<close>

definition sample_frame :: wsFrame where
  "sample_frame = event_frame (0, 0) zero_ACEvent"

lemma ws_sample:
  "\<exists>h. ws_reachable (NewHydraWS ''ws://h'' (make_chan 1)) h \<and> conns_made h = 1 \<and> \<not> cancelled h \<and>
    pumped h = [zero_ACEvent] \<and> queued h = [sample_frame] \<and> wire h = [(0, sample_frame)] \<and>
    pump h = PumpSelect"
proof -
  define N where "N = (\<lambda>_::nat. Absent)"
  define S where "S e p q w r rs ws W dq wi = (NewHydraWS ''ws://h'' (make_chan 1))\<lparr>
      extCh := (make_chan 1)\<lparr>ch_buf := e\<rparr>, pump := p, sendCh := (make_chan 1024)\<lparr>ch_buf := q\<rparr>,
      pumped := w, runner := r, h_conn := rs, conns_made := ws, readers := N(0 := Starting),
      writers := N(0 := W), pingers := N(0 := Starting), queued := dq, dequeued := map snd wi,
      wire := wi\<rparr>" for e p q w r rs ws W dq wi
  let ?i = "NewHydraWS ''ws://h'' (make_chan 1)"
  let ?z = zero_ACEvent and ?f = sample_frame and ?R = "RunWait 0" and ?c = "Some (0::nat)"
  note ss = S_def N_def NewHydraWS_def loop_simps make_chan_def start_worker_def sample_frame_def
  have "ws_step ?i (?i\<lparr>runner := RunDialing 0\<rparr>)"
    by (intro ws_run run_connect connect_dial) (simp_all add: ss)
  moreover have "ws_step (?i\<lparr>runner := RunDialing 0\<rparr>)
      (S [] PumpSelect [] [] ?R ?c 1 Starting [] [])"
    using ws_run [OF _ run_connect [OF dial_ok [of "?i\<lparr>runner := RunDialing 0\<rparr>" 0 0]]]
    by (simp add: ss)
  moreover have "ws_step (S [] PumpSelect [] [] ?R ?c 1 Starting [] [])
      (S [?z] PumpSelect [] [] ?R ?c 1 Starting [] [])"
    using ws_produce [OF _ produce [of ?z "S [] PumpSelect [] [] ?R ?c 1 Starting [] []"]]
    by (simp add: ss)
  moreover have "ws_step (S [?z] PumpSelect [] [] ?R ?c 1 Starting [] [])
      (S [] (PumpHold ?f) [] [?z] ?R ?c 1 Starting [] [])"
    using ws_pump [OF _ pump_recv [of "S [?z] PumpSelect [] [] ?R ?c 1 Starting [] []" ?z _ "(0, 0)"]]
    by (simp add: ss)
  moreover have "ws_step (S [] (PumpHold ?f) [] [?z] ?R ?c 1 Starting [] [])
      (S [] PumpSelect [?f] [?z] ?R ?c 1 Starting [?f] [])"
    using ws_pump [OF _ pump_send [of "S [] (PumpHold ?f) [] [?z] ?R ?c 1 Starting [] []" ?f]]
    by (simp add: ss)
  moreover have "ws_step (S [] PumpSelect [?f] [?z] ?R ?c 1 Starting [?f] [])
      (S [] PumpSelect [?f] [?z] ?R ?c 1 (Selecting 0) [?f] [])"
    using ws_write [OF _ writer_start [of "S [] PumpSelect [?f] [?z] ?R ?c 1 Starting [?f] []" 0]]
    by (simp add: ss)
  moreover have "ws_step (S [] PumpSelect [?f] [?z] ?R ?c 1 (Selecting 0) [?f] [])
      ((S [] PumpSelect [] [?z] ?R ?c 1 (Writing 0 ?f) [?f] [])\<lparr>dequeued := [?f]\<rparr>)"
    using ws_write [OF _ writer_recv [of "S [] PumpSelect [?f] [?z] ?R ?c 1 (Selecting 0) [?f] []" 0 0 ?f]]
    by (simp add: ss)
  moreover have "ws_step ((S [] PumpSelect [] [?z] ?R ?c 1 (Writing 0 ?f) [?f] [])\<lparr>dequeued := [?f]\<rparr>)
      (S [] PumpSelect [] [?z] ?R ?c 1 (Selecting 0) [?f] [(0, ?f)])"
    using ws_write [OF _ writer_ok [of
      "(S [] PumpSelect [] [?z] ?R ?c 1 (Writing 0 ?f) [?f] [])\<lparr>dequeued := [?f]\<rparr>" 0 0 ?f]]
    by (simp add: ss)
  ultimately have "ws_reachable ?i (S [] PumpSelect [] [?z] ?R ?c 1 (Selecting 0) [?f] [(0, ?f)])"
    by (meson ws_start ws_more)
  then show ?thesis
    by (intro exI [of _ "S [] PumpSelect [] [?z] ?R ?c 1 (Selecting 0) [?f] [(0, ?f)]"]) (simp add: ss)
qed

text \<open>C7. In every state the client can reach, whatever the network does and
  however the goroutines of its rounds interleave: each frame put into the queue is still queued
  (at most 1024 are), is in the hands of one writer, was written exactly once, or was lost in a
  write that failed; and at most one frame was lost per connection made.\<close>

theorem frames_conserved:
  assumes "ws_reachable (NewHydraWS url ch) h" and "\<forall>ev \<in> set (ch_buf ch). wf_ACEvent ev"
  shows "mset (queued h) = mset (map snd (wire h)) + mset (lost h) +
      (\<Sum>k < conns_made h. mset (holding (writers h k))) + mset (ch_buf (sendCh h)) \<and>
    length (ch_buf (sendCh h)) \<le> 1024 \<and> length (lost h) \<le> conns_made h"
proof -
  have "card (ended_rounds h) \<le> card {..<conns_made h}"
    by (rule card_mono) (auto simp: ended_rounds_def)
  with ws_invs [OF assms] show ?thesis
    by (simp add: send_queue_inv_def conservation_inv_def loss_inv_def wf_chan_def ac_simps)
qed

theorem frames_conserved_witness:
  "\<exists>h :: HydraWS. wire h = [(0, sample_frame)] \<and> length (lost h) \<le> 1 \<and>
    mset (queued h) = mset (map snd (wire h)) + mset (lost h) +
      (\<Sum>k < conns_made h. mset (holding (writers h k))) + mset (ch_buf (sendCh h))"
proof -
  obtain h where h: "ws_reachable (NewHydraWS ''ws://h'' (make_chan 1)) h" "conns_made h = 1"
      "wire h = [(0, sample_frame)]"
    using ws_sample by blast
  from frames_conserved [OF h(1)] h(2,3) show ?thesis by (intro exI [of _ h]) simp
qed

text \<open>While the client is on its first connection, the frames on the
  wire are a prefix of the frames put into the queue, and the events the backend decodes from the
  binary ones are a prefix of the events taken from the event channel: nothing is skipped,
  duplicated or reordered.\<close>

lemma first_connection_in_order:
  assumes "ws_reachable (NewHydraWS url ch) h" and "\<forall>ev \<in> set (ch_buf ch). wf_ACEvent ev"
    and "conns_made h \<le> 1"
  shows "(\<exists>rest. queued h = map snd (wire h) @ rest) \<and>
    (\<exists>rest. pumped h = frame_ACEvents (map snd (wire h)) @ rest)"
  using first_connection_prefixes [OF assms] by blast

text \<open>The event pump puts every event it takes from the event channel into the
  send queue, in order, as one binary frame that decodes to the event; only when the client is
  being closed may it drop the one event it holds.\<close>

lemma pump_queues_all:
  assumes "ws_reachable (NewHydraWS url ch) h" and "\<forall>ev \<in> set (ch_buf ch). wf_ACEvent ev"
  shows "(pump h = PumpSelect \<longrightarrow> pumped h = frame_ACEvents (queued h)) \<and>
    (\<forall>f. pump h = PumpHold f \<longrightarrow>
       pumped h = frame_ACEvents (queued h) @ [ACEvent_of_bytes (the (data f))]) \<and>
    (pump h = PumpReturned \<longrightarrow> pumped h = frame_ACEvents (queued h) \<or>
       cancelled h \<and> (\<exists>ev. pumped h = frame_ACEvents (queued h) @ [ev]))"
  using ws_invs(5) [OF assms] by (auto simp: pump_inv_def)



end
