(* ===== verification/Agent_Main.thy ===== *)
theory Agent_Main
  imports Agent_Windows Agent_Receiver Agent_IPC Agent_WS
begin

text \<open>
  The agent's main program (\<^verbatim>\<open>MedusaUserlandAgent/main.go\<close>): the command line, the connection to the
  driver, the WebSocket client and the callback that turns the backend's command into a module
  scan. \<open>fmt.Sscanf(s, "%d", &pid)\<close> is modelled as the standard library has it: spaces are
  skipped, a newline is not, an optional sign and decimal digits follow, what comes after them is
  ignored, and the value must fit 64 bits.
\<close>

section \<open>Reading the process id\<close>

datatype scan_failure = UnexpectedNewline | UnexpectedEOF | ExpectedInteger | ValueOutOfRange

definition is_space :: "nat \<Rightarrow> bool" where
  "is_space r \<longleftrightarrow> (0x09 \<le> r \<and> r \<le> 0x0D) \<or> r = 0x20 \<or> r = 0x85 \<or> r = 0xA0 \<or> r = 0x1680 \<or>
     (0x2000 \<le> r \<and> r \<le> 0x200A) \<or> r = 0x2028 \<or> r = 0x2029 \<or> r = 0x202F \<or> r = 0x205F \<or> r = 0x3000"

fun SkipSpace :: "nat list \<Rightarrow> scan_failure + nat list" where
  "SkipSpace [] = Inr []"
| "SkipSpace (r # rs) =
     (if r = 0x0A then Inl UnexpectedNewline
      else if is_space r then SkipSpace rs
      else Inr (r # rs))"

definition ParseInt :: "bool \<Rightarrow> nat list \<Rightarrow> scan_failure + int" where
  "ParseInt neg ds =
     (let v = int (digits_value ds); i = (if neg then - v else v) in
      if - (2 ^ 63) \<le> i \<and> i < 2 ^ 63 then Inr i else Inl ValueOutOfRange)"

definition scanInt :: "nat list \<Rightarrow> scan_failure + int" where
  "scanInt rs =
     (if rs = [] then Inl UnexpectedEOF
      else let neg = (hd rs = 0x2D);
               rs1 = (if neg \<or> hd rs = 0x2B then tl rs else rs);
               ds = takeWhile is_digit_byte rs1 in
           if rs1 = [] then Inl UnexpectedEOF
           else if ds = [] then Inl ExpectedInteger
           else ParseInt neg ds)"

definition Sscanf_d :: "string \<Rightarrow> scan_failure + int" where
  "Sscanf_d s = (case SkipSpace (runes_of s) of Inl e \<Rightarrow> Inl e | Inr rs \<Rightarrow> scanInt rs)"

section \<open>The program\<close>

record agent =
  ToProtectPID :: i32
  toInjectDLL :: string
  pipe :: string
  receiver :: Receiver
  client :: HydraWS

datatype main_outcome =
    IndexOutOfRange nat
  | InvalidPID scan_failure
  | ConnectFailed connect_error
  | Running agent

definition EventChannel :: "ACEvent chan" where
  "EventChannel = make_chan 100"

definition port :: string where
  "port = CHR 0x5C # ''MedusaComPort''"

text \<open>The callback \<open>main\<close> registers, as the client numbers callbacks.\<close>

definition main_callback :: nat where
  "main_callback = 1"

definition main :: "connect_env \<Rightarrow> string list \<Rightarrow> main_outcome" where
  "main env args =
     (let pipeName = Start [] in
      if length args \<le> 1 then IndexOutOfRange 1
      else case Sscanf_d (args ! 1) of
        Inl err \<Rightarrow> InvalidPID err
      | Inr pid \<Rightarrow>
          let toProtect = of_int pid in
          if length args \<le> 3 then IndexOutOfRange 3
          else let dll = args ! 3; (cerr, r) = Connect env toProtect (NewReceiver port) in
            (case cerr of
               Some err \<Rightarrow> ConnectFailed err
             | None \<Rightarrow>
                 Running \<lparr>ToProtectPID = toProtect, toInjectDLL = dll, pipe = pipeName, receiver = r,
                   client = WithOnMessage main_callback (NewHydraWS (args ! 2) EventChannel)\<rparr>))"

text \<open>What the callback does with a message: the events it puts into \<open>EventChannel\<close> and the system
  calls it makes.\<close>

definition message_string :: "u8 list \<Rightarrow> string" where
  "message_string b = bytes_string (map unat b)"

definition main_OnMessage ::
  "nat \<Rightarrow> 's snapshot_env \<Rightarrow> agent \<Rightarrow> u8 list \<Rightarrow> (ACEvent list \<times> os_call list) option" where
  "main_OnMessage fuel env a b =
     (if message_string b = ''scanDLL'' then executeDLLScan fuel env (ToProtectPID a)
      else Some ([], []))"

section \<open>Lemmas\<close>

lemma SkipSpace_digit: "is_digit_byte d \<Longrightarrow> SkipSpace (d # ds) = Inr (d # ds)"
  by (auto simp: is_digit_byte_def is_space_def)

text \<open>A process id written in decimal is read back, whatever follows its digits.\<close>

lemma scanInt_show_nat:
  assumes "n < 2 ^ 63" and "rest = [] \<or> \<not> is_digit_byte (hd rest)"
  shows "scanInt (show_nat n @ rest) = Inr (int n)"
proof -
  obtain d ds where d: "show_nat n = d # ds" "is_digit_byte d"
    using show_nat_head by blast
  have "takeWhile is_digit_byte (show_nat n @ rest) = show_nat n @ takeWhile is_digit_byte rest"
    by (rule takeWhile_append2) (rule show_nat_digits)
  moreover have "takeWhile is_digit_byte rest = []"
    using assms(2) by (cases rest) auto
  moreover have "d \<noteq> 0x2D" "d \<noteq> 0x2B"
    using d(2) by (auto simp: is_digit_byte_def)
  ultimately show ?thesis
    using assms(1) d digits_value_show_nat [of n]
    by (simp add: scanInt_def ParseInt_def Let_def)
qed

lemma main_running:
  "main env args = Running a \<longleftrightarrow>
     (\<exists>pid. 4 \<le> length args \<and> Sscanf_d (args ! 1) = Inr pid \<and>
        Connect env (of_int pid) (NewReceiver port) = (None, receiver a) \<and>
        a = \<lparr>ToProtectPID = of_int pid, toInjectDLL = args ! 3, pipe = defaultPipe,
             receiver = receiver a,
             client = WithOnMessage main_callback (NewHydraWS (args ! 2) EventChannel)\<rparr>)"
  by (auto simp: main_def Let_def Start_def split: sum.splits option.splits prod.splits)

lemma Sscanf_d_show_nat:
  assumes "n < 2 ^ 63" and "list_all valid_rune rest" and "rest = [] \<or> \<not> is_digit_byte (hd rest)"
  shows "Sscanf_d (string_of_runes (show_nat n @ rest)) = Inr (int n)"
proof -
  have "list_all valid_rune (show_nat n)"
    using show_nat_digits
    by (fastforce simp: list_all_iff valid_rune_def is_surrogate_def is_digit_byte_def)
  then have r: "runes_of (string_of_runes (show_nat n @ rest)) = show_nat n @ rest"
    using assms(2) by simp
  obtain d ds where d: "show_nat n = d # ds" "is_digit_byte d"
    using show_nat_head by blast
  then have "SkipSpace (show_nat n @ rest) = Inr (show_nat n @ rest)"
    using SkipSpace_digit [of d "ds @ rest"] by simp
  with r scanInt_show_nat [OF assms(1,3)] show ?thesis by (simp add: Sscanf_d_def)
qed

section \<open>Properties\<close>

text \<open>C28. Started with a decimal process id (below \<open>2 ^ 63\<close>, possibly followed by
  other characters) and all its arguments, the agent runs exactly when the driver accepts the
  connection; the driver then protects that process id modulo \<open>2 ^ 32\<close>, which is the typed one
  when it is below \<open>2 ^ 31\<close>, and the client was started on the URL of the second argument.\<close>

theorem main_protects_typed_pid:
  assumes "n < 2 ^ 63" and "list_all valid_rune rest" and "rest = [] \<or> \<not> is_digit_byte (hd rest)"
    and "4 \<le> length args" and "args ! 1 = string_of_runes (show_nat n @ rest)"
  shows "((\<exists>a. main env args = Running a) \<longleftrightarrow>
      fst (Connect env (of_nat n) (NewReceiver port)) = None) \<and>
    (\<forall>a. main env args = Running a \<longrightarrow>
       uint (ToProtectPID a) = int n mod 2 ^ 32 \<and> (n < 2 ^ 31 \<longrightarrow> sint (ToProtectPID a) = int n) \<and>
       URL (client a) = args ! 2 \<and> toInjectDLL a = args ! 3 \<and>
       MinifltPortNotifyRoutine p (Some (ctx_bytes (connect_ctx env (ToProtectPID a)))) d =
         Some (d\<lparr>client_port := p, DrvToProtectPID := of_nat n, DrvAgentPID := of_int (own_pid env)\<rparr>))"
proof -
  have scan: "Sscanf_d (args ! 1) = Inr (int n)"
    using Sscanf_d_show_nat [OF assms(1-3)] assms(5) by simp
  have u: "uint (of_nat n :: i32) = int n mod 2 ^ 32"
    by (simp add: unsigned_of_nat take_bit_eq_mod zmod_int)
  have s: "sint (of_nat n :: i32) = int n" if "n < 2 ^ 31"
    using that by (simp add: sint_uint u signed_take_bit_int_eq_self)
  have drv: "MinifltPortNotifyRoutine p (Some (ctx_bytes (connect_ctx env (of_nat n)))) d =
      Some (d\<lparr>client_port := p, DrvToProtectPID := of_nat n, DrvAgentPID := of_int (own_pid env)\<rparr>)"
    using driver_reads_ctx [of "connect_ctx env (of_nat n)" p d] by (simp add: connect_ctx_def)
  show ?thesis
    using assms(4) scan u s drv
    by (cases "Connect env (of_nat n) (NewReceiver port)")
      (auto simp: main_def Let_def WithOnMessage_def NewHydraWS_def split: option.splits)
qed

theorem main_protects_typed_pid_witness:
  "\<exists>a. main sample_connect_env [''agent'', string_of_runes (show_nat 4294967338), ''ws://h'', ''x.dll''] =
      Running a \<and> uint (ToProtectPID a) = 42"
proof -
  let ?args = "[''agent'', string_of_runes (show_nat 4294967338), ''ws://h'', ''x.dll'']"
  have "fst (Connect sample_connect_env (of_nat 4294967338) (NewReceiver port)) = None"
    by (simp add: sample_Connect)
  then show ?thesis
    using main_protects_typed_pid [of 4294967338 "[]" ?args sample_connect_env 7 initial_driver] by auto
qed

text \<open>The agent does not check how many arguments it has: without the first it
  panics before reading it, and with a valid process id but without the third it panics although
  nothing has been connected; an argument that is no decimal integer is reported, and nothing but a
  failed connection remains.\<close>

lemma main_argument_errors:
  "(main env args = IndexOutOfRange 1 \<longleftrightarrow> length args \<le> 1) \<and>
   (main env args = IndexOutOfRange 3 \<longleftrightarrow>
      (length args = 2 \<or> length args = 3) \<and> (\<exists>pid. Sscanf_d (args ! 1) = Inr pid)) \<and>
   ((\<exists>e. main env args = InvalidPID e) \<longleftrightarrow> 2 \<le> length args \<and> (\<exists>e. Sscanf_d (args ! 1) = Inl e)) \<and>
   ((\<exists>e. main env args = ConnectFailed e) \<longleftrightarrow>
      4 \<le> length args \<and> (\<exists>pid. Sscanf_d (args ! 1) = Inr pid \<and>
        fst (Connect env (of_int pid) (NewReceiver port)) \<noteq> None))"
  by (auto simp: main_def Let_def split: sum.splits option.splits prod.splits)

end
