(* ===== verification/Agent_WS_Runs.thy ===== *)
theory Agent_WS_Runs
  imports Agent_WS
begin

text \<open>
  Executions of the client: that \<open>Close\<close> can always run to its end, and those that show what the
  client does not guarantee.
\<close>

section \<open>Executions\<close>

text \<open>A successful dial, from the top of the loop in \<open>run\<close>.\<close>

lemma ws_dial:
  assumes "runner h = RunConnect n" and "\<not> cancelled h" and "\<not> panicked h" and "k = conns_made h"
  shows "ws_reachable h (h\<lparr>h_conn := Some k, conns_made := Suc k, runner := RunWait k,
      readers := (readers h)(k := Starting), writers := (writers h)(k := Starting),
      pingers := (pingers h)(k := Starting)\<rparr>)"
proof -
  let ?h = "h\<lparr>runner := RunDialing n\<rparr>"
  have "ws_step h ?h"
    using assms by (intro ws_run run_connect connect_dial)
  moreover have "connect_step ?h (?h\<lparr>h_conn := Some k, conns_made := Suc k, runner := RunWait k,
      readers := (readers ?h)(k := Starting), writers := (writers ?h)(k := Starting),
      pingers := (pingers ?h)(k := Starting)\<rparr>)"
    by (rule dial_ok) (use assms in simp_all)
  then have "ws_step ?h (h\<lparr>h_conn := Some k, conns_made := Suc k, runner := RunWait k,
      readers := (readers h)(k := Starting), writers := (writers h)(k := Starting),
      pingers := (pingers h)(k := Starting)\<rparr>)"
    using assms by (intro ws_run run_connect) simp_all
  ultimately show ?thesis
    by (meson ws_more ws_start)
qed


section \<open>A frame lost beside a healthy connection\<close>

text \<open>The states the concrete executions below pass through.\<close>

definition scene :: "string \<Rightarrow> ACEvent chan \<Rightarrow> nat option \<Rightarrow> nat \<Rightarrow> nat set \<Rightarrow> run_pc \<Rightarrow>
    (nat \<Rightarrow> worker) \<Rightarrow> (nat \<Rightarrow> worker) \<Rightarrow> (nat \<Rightarrow> worker) \<Rightarrow>
    wsFrame list \<Rightarrow> wsFrame list \<Rightarrow> wsFrame list \<Rightarrow> wsFrame list \<Rightarrow> HydraWS" where
  "scene url ch c n closed r R W P buf qd dq ls =
     (NewHydraWS url ch)\<lparr>h_conn := c, conns_made := n, conns_closed := closed, runner := r,
       readers := R, writers := W, pingers := P, sendCh := (make_chan 1024)\<lparr>ch_buf := buf\<rparr>,
       queued := qd, dequeued := dq, lost := ls\<rparr>"

lemmas scene_simps = scene_def NewHydraWS_def start_worker_def loop_simps make_chan_def


section \<open>Two writers inside one connection\<close>

lemma concurrent_writers:
  fixes b :: "u8 list"
  shows "\<exists>h f. ws_reachable (NewHydraWS url ch) h \<and> h_conn h = Some 0 \<and>
    writers h 0 = Writing 0 f \<and> pingers h 0 = Writing 0 ping_frame"
proof -
  define f where "f = \<lparr>mt = TextMessage, data = Some b\<rparr>"
  define N where "N = (\<lambda>_::nat. Absent)"
  let ?init = "NewHydraWS url ch"
  let ?h = "\<lambda>w p. scene url ch (Some 0) 1 {} (RunWait 0) (N(0 := Starting)) (N(0 := w)) (N(0 := p))"
  have r1: "ws_reachable ?init (?h Starting Starting [] [] [] [])"
    using ws_dial [of ?init 0 0] by (simp add: scene_simps N_def)
  have "ws_step (?h Starting Starting [] [] [] []) (?h (Selecting 0) Starting [] [] [] [])"
    using ws_write [OF _ writer_start [of "?h Starting Starting [] [] [] []" 0]]
    by (simp add: scene_simps)
  with r1 have r2: "ws_reachable ?init (?h (Selecting 0) Starting [] [] [] [])" by (rule ws_more)
  have "ws_step (?h (Selecting 0) Starting [] [] [] []) (?h (Selecting 0) (Selecting 0) [] [] [] [])"
    using ws_ping [OF _ pinger_start [of "?h (Selecting 0) Starting [] [] [] []" 0]]
    by (simp add: scene_simps)
  with r2 have r3: "ws_reachable ?init (?h (Selecting 0) (Selecting 0) [] [] [] [])" by (rule ws_more)
  let ?P = "Writing 0 ping_frame"
  have "ws_step (?h (Selecting 0) (Selecting 0) [] [] [] []) (?h (Selecting 0) ?P [] [] [] [])"
    using ws_ping [OF _ pinger_tick [of "?h (Selecting 0) (Selecting 0) [] [] [] []" 0 0]]
    by (simp add: scene_simps)
  with r3 have r4: "ws_reachable ?init (?h (Selecting 0) ?P [] [] [] [])" by (rule ws_more)
  have "ws_step (?h (Selecting 0) ?P [] [] [] []) (?h (Selecting 0) ?P [f] [f] [] [])"
    using ws_json [OF _ json_sent [OF f_def, of "?h (Selecting 0) ?P [] [] [] []"]]
    by (simp add: scene_simps)
  with r4 have r5: "ws_reachable ?init (?h (Selecting 0) ?P [f] [f] [] [])" by (rule ws_more)
  have "ws_step (?h (Selecting 0) ?P [f] [f] [] []) (?h (Writing 0 f) ?P [] [f] [f] [])"
    using ws_write [OF _ writer_recv [of "?h (Selecting 0) ?P [f] [f] [] []" 0 0 f]]
    by (simp add: scene_simps f_def)
  with r5 have "ws_reachable ?init (?h (Writing 0 f) ?P [] [f] [f] [])" by (rule ws_more)
  then show ?thesis
    by (intro exI [of _ "?h (Writing 0 f) ?P [] [f] [f] []"] exI [of _ f]) (simp add: scene_simps)
qed

section \<open>\<open>Close\<close> can always finish\<close>

text \<open>\<open>winding h h'\<close>: the goroutines of a cancelled client have moved on, and those that had
  returned stay so.\<close>

definition winding :: "HydraWS \<Rightarrow> HydraWS \<Rightarrow> bool" where
  "winding h h' \<longleftrightarrow> ws_reachable h h' \<and> cancelled h' \<and> \<not> panicked h' \<and> closer h' = closer h \<and>
     sendCh h' = sendCh h \<and> conns_made h' = conns_made h \<and>
     (pump h = PumpReturned \<longrightarrow> pump h' = PumpReturned) \<and>
     (runner h = RunReturned \<longrightarrow> runner h' = RunReturned) \<and>
     (\<forall>k. idle (readers h k) \<longrightarrow> idle (readers h' k)) \<and>
     (\<forall>k. idle (writers h k) \<longrightarrow> idle (writers h' k)) \<and>
     (\<forall>k. idle (pingers h k) \<longrightarrow> idle (pingers h' k))"

lemma winding_refl: "cancelled h \<Longrightarrow> \<not> panicked h \<Longrightarrow> winding h h"
  by (simp add: winding_def ws_start)

lemma winding_trans: "winding h h' \<Longrightarrow> winding h' h'' \<Longrightarrow> winding h h''"
  by (auto simp: winding_def intro: ws_reachable_trans)

lemma winding_alive: "winding h h' \<Longrightarrow> cancelled h' \<and> \<not> panicked h'"
  by (simp add: winding_def)

text \<open>\<open>winds P h\<close>: the client can wind down from \<open>h\<close> to a state with \<open>P\<close>.\<close>

definition winds :: "(HydraWS \<Rightarrow> bool) \<Rightarrow> HydraWS \<Rightarrow> bool" where
  "winds P h \<longleftrightarrow> (\<exists>h'. winding h h' \<and> P h')"

lemma winds_now: "cancelled h \<Longrightarrow> \<not> panicked h \<Longrightarrow> P h \<Longrightarrow> winds P h"
  using winding_refl by (auto simp: winds_def)

lemma winds_step:
  assumes "ws_step h h'" and "winds P h'" and "ws_reachable h h' \<Longrightarrow> winding h h'"
  shows "winds P h"
  using assms ws_one [OF assms(1)] by (auto simp: winds_def intro: winding_trans)

lemma wind_pump:
  assumes "cancelled h" "\<not> panicked h"
  shows "winds (\<lambda>h. pump h = PumpReturned) h"
proof (cases "pump h = PumpReturned")
  case False
  then have "ws_step h (h\<lparr>pump := PumpReturned\<rparr>)"
    using assms by (intro ws_pump pump_done)
  then show ?thesis
    by (rule winds_step) (use assms in \<open>auto simp: winding_def intro!: winds_now\<close>)
qed (use assms in \<open>auto intro: winds_now\<close>)

text \<open>\<open>run\<close> returns from each of its blocking points.\<close>

lemma wind_connect:
  assumes "cancelled h" "\<not> panicked h" and "runner h = RunConnect n \<or> runner h = RunDialing n"
  shows "winds (\<lambda>h. runner h = RunReturned) h"
proof -
  have "ws_step h (h\<lparr>runner := RunReturned\<rparr>)"
    using assms by (auto intro: ws_run run_connect connect_refused dial_cancelled)
  then show ?thesis
    by (rule winds_step) (use assms in \<open>auto simp: winding_def intro!: winds_now\<close>)
qed

lemma wind_closing:
  assumes "cancelled h" "\<not> panicked h" and "runner h = RunClosing"
  shows "winds (\<lambda>h. runner h = RunReturned) h"
proof -
  have "ws_step h ((drop_conn h)\<lparr>runner := RunReturned\<rparr>)"
    using ws_run [OF assms(2) run_close [OF assms(3)]] assms(1) by simp
  then show ?thesis
    by (rule winds_step) (use assms in \<open>auto simp: winding_def intro!: winds_now\<close>)
qed

lemma wind_run:
  assumes "cancelled h" "\<not> panicked h"
  shows "winds (\<lambda>h. runner h = RunReturned) h"
proof (cases "runner h")
  case (RunSleep n)
  from ws_run [OF assms(2) run_wake [OF RunSleep]] show ?thesis
    by (rule winds_step) (use assms in \<open>auto simp: winding_def RunSleep intro!: wind_connect\<close>)
next
  case (RunWait k)
  then have "ws_step h (h\<lparr>runner := RunClosing\<rparr>)"
    using assms by (auto intro: ws_run run_select)
  then show ?thesis
    by (rule winds_step) (use assms in \<open>auto simp: winding_def RunWait intro!: wind_closing\<close>)
qed (use assms in \<open>auto intro: wind_connect wind_closing winds_now\<close>)

text \<open>So do the loops of every round.\<close>

lemma idle_simps [simp]:
  "idle Absent" "idle Returned" "\<not> idle Starting" "\<not> idle (Selecting c)" "\<not> idle (Writing c f)"
  by (simp_all add: idle_def)

lemma wind_writer:
  assumes "cancelled h" "\<not> panicked h"
  shows "winds (\<lambda>h. idle (writers h k)) h"
proof -
  have ends: "winds (\<lambda>h. idle (writers h k)) h"
    if "cancelled h" "\<not> panicked h"
      "writeLoop_step k h (h\<lparr>lost := ls, writers := (writers h)(k := Returned)\<rparr>)" for h ls
    using ws_write [OF that(2,3)]
    by (rule winds_step) (use that in \<open>auto simp: winding_def intro!: winds_now\<close>)
  have sel: "winds (\<lambda>h. idle (writers h k)) h"
    if "cancelled h" "\<not> panicked h" "writers h k = Selecting c" for h c
    using ends [of h "lost h"] writer_done [OF that(3,1)] that by simp
  show ?thesis
  proof (cases "writers h k")
    case Starting
    from ws_write [OF assms(2) writer_start [OF Starting]] show ?thesis
      by (rule winds_step)
        (use assms in \<open>auto simp: winding_def start_worker_def Starting
          intro: winds_now sel split: option.splits\<close>)
  next
    case (Writing c fr)
    from ends [OF assms writer_error [OF Writing]] show ?thesis .
  qed (use assms sel in \<open>auto intro: winds_now\<close>)
qed

lemma wind_pinger:
  assumes "cancelled h" "\<not> panicked h"
  shows "winds (\<lambda>h. idle (pingers h k)) h"
proof -
  have ends: "winds (\<lambda>h. idle (pingers h k)) h"
    if "cancelled h" "\<not> panicked h" "pingLoop_step k h (h\<lparr>pingers := (pingers h)(k := Returned)\<rparr>)" for h
    using ws_ping [OF that(2,3)]
    by (rule winds_step) (use that in \<open>auto simp: winding_def intro!: winds_now\<close>)
  have sel: "winds (\<lambda>h. idle (pingers h k)) h"
    if "cancelled h" "\<not> panicked h" "pingers h k = Selecting c" for h c
    using ends [OF that(1,2) pinger_done [OF that(3,1)]] .
  show ?thesis
  proof (cases "pingers h k")
    case Starting
    from ws_ping [OF assms(2) pinger_start [OF Starting]] show ?thesis
      by (rule winds_step)
        (use assms in \<open>auto simp: winding_def start_worker_def Starting
          intro: winds_now sel split: option.splits\<close>)
  next
    case (Writing c fr)
    from ends [OF assms pinger_error [OF Writing]] show ?thesis .
  qed (use assms sel in \<open>auto intro: winds_now\<close>)
qed

text \<open>A reader is never inside \<open>WriteMessage\<close>.\<close>

definition reader_inv :: "HydraWS \<Rightarrow> bool" where
  "reader_inv h \<longleftrightarrow> (\<forall>k c f. readers h k \<noteq> Writing c f)"

lemma reader_inv_step: "ws_step h h' \<Longrightarrow> reader_inv h \<Longrightarrow> reader_inv h'"
  by (erule ws_step_inv) (auto simp: reader_inv_def with_defs split: if_splits elim!: step_elims)

lemma wind_reader:
  assumes "cancelled h" "\<not> panicked h" "reader_inv h"
  shows "winds (\<lambda>h. idle (readers h k)) h"
proof -
  have sel: "winds (\<lambda>h. idle (readers h k)) h"
    if "cancelled h" "\<not> panicked h" "readers h k = Selecting c" for h c
    using ws_read [OF that(2) reader_error [OF that(3)]]
    by (rule winds_step) (use that in \<open>auto simp: winding_def intro!: winds_now\<close>)
  show ?thesis
  proof (cases "readers h k")
    case Starting
    from ws_read [OF assms(2) reader_start [OF Starting]] show ?thesis
      by (rule winds_step)
        (use assms in \<open>auto simp: winding_def start_worker_def Starting
          intro: winds_now sel split: option.splits\<close>)
  next
    case (Writing c f)
    then show ?thesis using assms(3) by (simp add: reader_inv_def)
  qed (use assms sel in \<open>auto intro: winds_now\<close>)
qed

text \<open>A property that winding down keeps can be added to one that it reaches.\<close>

lemma winds_and:
  assumes "winds P h" and "\<And>h'. winding h h' \<Longrightarrow> P h' \<Longrightarrow> winds Q h'"
    and "\<And>h' h''. winding h' h'' \<Longrightarrow> P h' \<Longrightarrow> P h''"
  shows "winds (\<lambda>h. P h \<and> Q h) h"
  using assms unfolding winds_def by (metis winding_trans)

lemma winding_reader_inv: "winding h h' \<Longrightarrow> reader_inv h \<Longrightarrow> reader_inv h'"
  unfolding winding_def using ws_reachable_inv [where I = reader_inv] reader_inv_step by blast

lemma wind_rounds:
  assumes "cancelled h" "\<not> panicked h" "reader_inv h"
  shows "winds (\<lambda>h. \<forall>k<n. idle (readers h k) \<and> idle (writers h k) \<and> idle (pingers h k)) h"
proof (induction n)
  case 0
  then show ?case using assms by (simp add: winds_now)
next
  case (Suc n)
  have round: "winds (\<lambda>h. idle (readers h n) \<and> (idle (writers h n) \<and> idle (pingers h n))) h'"
    if "winding h h'" for h'
    using winding_alive [OF that] winding_reader_inv [OF that assms(3)]
    by (intro winds_and wind_reader wind_writer wind_pinger) (auto simp: winding_def)
  have "winds (\<lambda>h. (\<forall>k<n. idle (readers h k) \<and> idle (writers h k) \<and> idle (pingers h k)) \<and>
      (idle (readers h n) \<and> (idle (writers h n) \<and> idle (pingers h n)))) h"
    by (rule winds_and [OF Suc.IH round]) (auto simp: winding_def)
  then show ?case
    by (simp add: All_less_Suc conj_comms)
qed

lemma wind_all:
  assumes "cancelled h" "\<not> panicked h" "reader_inv h"
  shows "winds all_returned h"
proof -
  let ?rounds = "\<lambda>h'. \<forall>k<conns_made h. idle (readers h' k) \<and> idle (writers h' k) \<and> idle (pingers h' k)"
  have rounds: "winds ?rounds h'" if "winding h h'" for h'
    using winding_alive [OF that] winding_reader_inv [OF that assms(3)] by (simp add: wind_rounds)
  have run: "winds (\<lambda>h'. runner h' = RunReturned \<and> ?rounds h') h'" if "winding h h'" for h'
    using winding_alive [OF that]
    by (intro winds_and wind_run rounds winding_trans [OF that]) (auto simp: winding_def)
  have "winds (\<lambda>h'. pump h' = PumpReturned \<and> (runner h' = RunReturned \<and> ?rounds h')) h"
    using assms(1,2) by (intro winds_and wind_pump run) (auto simp: winding_def)
  then show ?thesis
    by (auto simp: winds_def winding_def all_returned_def)
qed

text \<open>From the moment \<open>Close\<close> has begun it can run to its end.\<close>

lemma close_can_finish:
  assumes "ws_reachable (NewHydraWS url ch) h" and "\<forall>ev \<in> set (ch_buf ch). wf_ACEvent ev"
    and "closer h \<noteq> NotClosing" and "\<not> ch_closed (sendCh h)"
  shows "\<exists>h'. ws_reachable h h' \<and> closer h' = CloseReturned \<and> all_returned h' \<and>
    ch_closed (sendCh h') \<and> \<not> panicked h'"
proof -
  have "reader_inv h"
    using ws_reachable_inv [where I = reader_inv, OF assms(1) _ reader_inv_step]
    by (simp add: reader_inv_def NewHydraWS_def)
  moreover have "cancelled h" "\<not> panicked h"
    using ws_reachable_invs [OF assms(1,2)] assms(3,4)
    by (auto simp: ws_inv_def close_inv_def panic_inv_def)
  ultimately obtain h1 where h1: "ws_reachable h h1" "all_returned h1" "closer h1 = closer h"
      "\<not> panicked h1" "sendCh h1 = sendCh h"
    using wind_all [of h] by (auto simp: winds_def winding_def)
  define h2 where "h2 = (if closer h = CloseWaiting then h1 else (drop_conn h1)\<lparr>closer := CloseWaiting\<rparr>)"
  have "closer h = CloseCancelled \<or> closer h = CloseWaiting"
    using ws_reachable_invs [OF assms(1,2)] assms(3,4)
    by (cases "closer h") (auto simp: ws_inv_def close_inv_def)
  then have h2: "ws_reachable h h2" "all_returned h2" "closer h2 = CloseWaiting" "\<not> panicked h2"
      "sendCh h2 = sendCh h"
    using h1 ws_more [OF h1(1) ws_close [OF h1(4) close_conn [of h1]]]
    by (auto simp: h2_def all_returned_def)
  then have "ws_step h2 (h2\<lparr>sendCh := (sendCh h)\<lparr>ch_closed := True\<rparr>, closer := CloseReturned\<rparr>)"
    using assms(4) by (intro ws_close close_channel) (auto simp: loop_simps)
  with h2(1) have "ws_reachable h (h2\<lparr>sendCh := (sendCh h)\<lparr>ch_closed := True\<rparr>, closer := CloseReturned\<rparr>)"
    by (rule ws_more)
  with h2(2,4) show ?thesis
    by (intro exI [of _ "h2\<lparr>sendCh := (sendCh h)\<lparr>ch_closed := True\<rparr>, closer := CloseReturned\<rparr>"])
      (simp add: all_returned_def)
qed

text \<open>After that a further \<open>SendJSON\<close> can take the send case of its select, which panics.\<close>

lemma send_after_close:
  "\<exists>h. ws_reachable (NewHydraWS url (make_chan n)) h \<and> closer h = CloseReturned \<and> \<not> panicked h \<and>
    (\<exists>h'. SendJSON_step b h h' \<and> panicked h')"
proof -
  let ?init = "NewHydraWS url (make_chan n)"
  define h where "h = ?init\<lparr>cancelled := True, closer := CloseCancelled\<rparr>"
  have "ws_step ?init h"
    unfolding h_def by (intro ws_close close_cancel) (simp_all add: NewHydraWS_def)
  then have h: "ws_reachable ?init h" by (rule ws_one)
  have "closer h \<noteq> NotClosing" "\<not> ch_closed (sendCh h)"
    by (simp_all add: h_def NewHydraWS_def)
  with close_can_finish [OF h] obtain h' where h': "ws_reachable h h'" "closer h' = CloseReturned"
      "ch_closed (sendCh h')" "\<not> panicked h'"
    by auto
  have "SendJSON_step b h' (h'\<lparr>panicked := True\<rparr>)"
    using json_panic [OF refl] h'(3) by (simp add: loop_simps)
  with h' ws_reachable_trans [OF h'(1) h] show ?thesis
    by (intro exI [of _ h'] conjI exI [of _ "h'\<lparr>panicked := True\<rparr>"]) simp_all
qed

section \<open>Properties\<close>




text \<open>The writer and the pinger of a connection can be inside
  \<open>WriteMessage\<close> on it at the same time, which the WebSocket library forbids: it allows one
  concurrent caller.\<close>

lemma concurrent_WriteMessage:
  "\<exists>h f. ws_reachable (NewHydraWS url ch) h \<and> h_conn h = Some 0 \<and>
    writers h 0 = Writing 0 f \<and> pingers h 0 = Writing 0 ping_frame"
  by (rule concurrent_writers)

text \<open>C40. After \<open>Close\<close> has returned, \<open>SendJSON\<close> may return its error or
  take the send case of its select on the closed queue, which panics.\<close>

theorem SendJSON_after_Close_panics:
  "\<exists>h. ws_reachable (NewHydraWS url (make_chan n)) h \<and> closer h = CloseReturned \<and> \<not> panicked h \<and>
    (\<exists>h'. SendJSON_step b h h' \<and> panicked h') \<and> SendJSON_step b h h"
proof -
  obtain h where h: "ws_reachable (NewHydraWS url (make_chan n)) h" "closer h = CloseReturned"
      "\<not> panicked h" "\<exists>h'. SendJSON_step b h h' \<and> panicked h'"
    using send_after_close by blast
  moreover have "cancelled h"
    using ws_invs(6) [OF h(1)] h(2) by (simp add: close_inv_def)
  ultimately show ?thesis by (blast intro: json_closed)
qed

end
