(* ===== verification/Agent_WS_Spec.thy ===== *)
theory Agent_WS_Spec
  imports Agent_WS_Runs
begin

text \<open>
  What the client promises, as a machine without goroutines, connections or a network: a link with a
  bounded queue in front, frames under way, and frames arrived or dropped, at most one drop for
  each time it was dialled. The client of \<open>Agent_WS\<close> implements it (the locale \<open>simulation\<close>).
\<close>

section \<open>The abstract link\<close>

record link =
  waiting :: "wsFrame list"
  under_way :: "wsFrame multiset"
  arrived :: "wsFrame list"
  dropped :: "wsFrame list"
  dials :: nat
  shut :: bool

definition new_link :: link where
  "new_link = \<lparr>waiting = [], under_way = {#}, arrived = [], dropped = [], dials = 0, shut = False\<rparr>"

inductive link_step :: "link \<Rightarrow> link \<Rightarrow> bool" where
  accept: "\<not> shut l \<Longrightarrow> length (waiting l) < 1024 \<Longrightarrow> link_step l (l\<lparr>waiting := waiting l @ [f]\<rparr>)"
| dial: "\<not> shut l \<Longrightarrow> link_step l (l\<lparr>dials := Suc (dials l)\<rparr>)"
| depart: "\<not> shut l \<Longrightarrow> waiting l = f # fs \<Longrightarrow>
    link_step l (l\<lparr>waiting := fs, under_way := add_mset f (under_way l)\<rparr>)"
| arrive: "\<not> shut l \<Longrightarrow> under_way l = add_mset f u \<Longrightarrow>
    link_step l (l\<lparr>under_way := u, arrived := arrived l @ [f]\<rparr>)"
| fail: "\<not> shut l \<Longrightarrow> under_way l = add_mset f u \<Longrightarrow> length (dropped l) < dials l \<Longrightarrow>
    link_step l (l\<lparr>under_way := u, dropped := dropped l @ [f]\<rparr>)"
| shut_down: "\<not> shut l \<Longrightarrow> under_way l = {#} \<Longrightarrow> link_step l (l\<lparr>shut := True\<rparr>)"

lemma shut_link_stays: "link_step\<^sup>*\<^sup>* l l' \<Longrightarrow> shut l \<Longrightarrow> l' = l"
  by (induction rule: rtranclp_induct) (auto elim!: link_step.cases)

section \<open>The client implements it\<close>

definition frames_held :: "HydraWS \<Rightarrow> wsFrame multiset" where
  "frames_held h = (\<Sum>k < conns_made h. mset (holding (writers h k)))"

definition link_of :: "HydraWS \<Rightarrow> link" where
  "link_of h = \<lparr>waiting = ch_buf (sendCh h), under_way = frames_held h, arrived = map snd (wire h),
     dropped = lost h, dials = conns_made h, shut = ch_closed (sendCh h)\<rparr>"

lemma link_quiet:
  assumes "sendCh h' = sendCh h" and "wire h' = wire h" and "lost h' = lost h"
    and "conns_made h' = conns_made h" and "writers h' = writers h"
  shows "link_of h' = link_of h"
  using assms by (simp add: link_of_def frames_held_def)

lemma link_quiet_steps:
  "produce_step h h' \<Longrightarrow> link_of h' = link_of h" "readLoop_step k h h' \<Longrightarrow> link_of h' = link_of h"
  "pingLoop_step k h h' \<Longrightarrow> link_of h' = link_of h" "configure_step h h' \<Longrightarrow> link_of h' = link_of h"
  by (auto simp: with_defs intro!: link_quiet elim!: produce_step.cases readLoop_step.cases
      pingLoop_step.cases configure_step.cases)

text \<open>A writer that is at work shows that the queue is open.\<close>

lemma live_writer_open:
  assumes "ws_inv h" and "writers h k = Selecting c \<or> writers h k = Writing c fr"
  shows "\<not> ch_closed (sendCh h)" and "k < conns_made h"
proof -
  show k: "k < conns_made h" using assms live_writer_bound [of h k] by (auto simp: ws_inv_def)
  show "\<not> ch_closed (sendCh h)"
    using assms k by (auto simp: ws_inv_def close_inv_def all_returned_def idle_def)
qed

lemma link_write:
  assumes "writeLoop_step k h h'" and "ws_inv h"
  shows "link_of h' = link_of h \<or> link_step (link_of h) (link_of h')"
  using assms(1)
proof (cases rule: writeLoop_step.cases)
  case writer_start
  then have "k < conns_made h" using assms(2) live_writer_bound [of h k] by (simp add: ws_inv_def)
  then show ?thesis
    using writer_start holding_sum_upd [of k "conns_made h" "writers h"] by (simp add: link_of_def frames_held_def)
next
  case (writer_recv c fr ch)
  note l = live_writer_open [OF assms(2) disjI1 [OF writer_recv(2)]]
  obtain fs where q: "ch_buf (sendCh h) = fr # fs" "ch = (sendCh h)\<lparr>ch_buf := fs\<rparr>"
    using writer_recv(3) by (auto simp: loop_simps)
  then obtain d where "data fr = Some d" using assms(2) by (auto simp: ws_inv_def send_queue_inv_def)
  then have "link_of h' = (link_of h)\<lparr>waiting := fs, under_way := add_mset fr (under_way (link_of h))\<rparr>"
    using writer_recv q holding_sum_upd [OF l(2), of "writers h" "Writing c fr"]
    by (simp add: link_of_def frames_held_def)
  moreover have "link_step (link_of h) ((link_of h)\<lparr>waiting := fs, under_way := add_mset fr (under_way (link_of h))\<rparr>)"
    by (rule depart) (simp_all add: link_of_def l q)
  ultimately show ?thesis by simp
next
  case (writer_closed c)
  note l = live_writer_open [OF assms(2) disjI1 [OF writer_closed(2)]]
  with writer_closed show ?thesis by (simp add: loop_simps)
next
  case (writer_ok c fr)
  note l = live_writer_open [OF assms(2) disjI2 [OF writer_ok(2)]]
  define u where "u = frames_held h'"
  have u: "frames_held h = add_mset fr u"
    using writer_ok holding_sum_upd [OF l(2), of "writers h" "Selecting c"] by (simp add: frames_held_def u_def)
  have "link_of h' = (link_of h)\<lparr>under_way := u, arrived := arrived (link_of h) @ [fr]\<rparr>"
    using writer_ok by (simp add: link_of_def u_def)
  moreover have "link_step (link_of h) ((link_of h)\<lparr>under_way := u, arrived := arrived (link_of h) @ [fr]\<rparr>)"
    by (rule arrive) (simp_all add: link_of_def l u)
  ultimately show ?thesis by simp
next
  case (writer_error c fr)
  note l = live_writer_open [OF assms(2) disjI2 [OF writer_error(2)]]
  define u where "u = frames_held h'"
  have u: "frames_held h = add_mset fr u"
    using writer_error holding_sum_upd [OF l(2), of "writers h" Returned] by (simp add: frames_held_def u_def)
  have "ended_rounds h \<subseteq> {..<conns_made h} - {k}"
    using writer_error by (auto simp: ended_rounds_def)
  then have "card (ended_rounds h) < conns_made h"
    using card_mono [of "{..<conns_made h} - {k}" "ended_rounds h"] l(2) by simp
  then have n: "length (lost h) < conns_made h" using assms(2) by (simp add: ws_inv_def loss_inv_def)
  have "link_of h' = (link_of h)\<lparr>under_way := u, dropped := dropped (link_of h) @ [fr]\<rparr>"
    using writer_error by (simp add: link_of_def u_def)
  moreover have "link_step (link_of h) ((link_of h)\<lparr>under_way := u, dropped := dropped (link_of h) @ [fr]\<rparr>)"
    by (rule fail) (simp_all add: link_of_def l u n)
  ultimately show ?thesis by simp
next
  case (writer_done c)
  note l = live_writer_open [OF assms(2) disjI1 [OF writer_done(2)]]
  then show ?thesis
    using writer_done holding_sum_upd [OF l(2), of "writers h" Returned] by (simp add: link_of_def frames_held_def)
qed

lemma link_connect:
  assumes "connect_step h h'" and "ws_inv h"
  shows "link_of h' = link_of h \<or> link_step (link_of h) (link_of h')"
  using assms(1)
proof (cases rule: connect_step.cases)
  case (dial_ok n k)
  have "\<not> ch_closed (sendCh h)"
    using assms(2) dial_ok by (auto simp: ws_inv_def close_inv_def all_returned_def)
  moreover have "(\<Sum>j<k. mset (holding (((writers h)(k := Starting)) j))) = (\<Sum>j<k. mset (holding (writers h j)))"
    by (intro sum.cong) auto
  ultimately have "link_of h' = (link_of h)\<lparr>dials := Suc (dials (link_of h))\<rparr>" "\<not> shut (link_of h)"
    using dial_ok by (simp_all add: link_of_def frames_held_def)
  with dial [of "link_of h"] show ?thesis by simp
qed (auto intro!: link_quiet)

lemma link_run:
  "run_step h h' \<Longrightarrow> ws_inv h \<Longrightarrow> link_of h' = link_of h \<or> link_step (link_of h) (link_of h')"
  by (erule run_step.cases) (use link_connect in \<open>auto intro!: link_quiet\<close>)

lemma link_enqueue:
  assumes "chan_send (sendCh h) f = Sent ch" and "sendCh h' = ch" and "wire h' = wire h"
    and "lost h' = lost h" and "conns_made h' = conns_made h" and "writers h' = writers h" and "ws_inv h"
  shows "link_step (link_of h) (link_of h')"
proof -
  have "link_of h' = (link_of h)\<lparr>waiting := waiting (link_of h) @ [f]\<rparr>"
    using assms by (simp add: link_of_def frames_held_def loop_simps)
  moreover have "\<not> shut (link_of h)" "length (waiting (link_of h)) < 1024"
    using assms by (simp_all add: link_of_def loop_simps ws_inv_def send_queue_inv_def)
  ultimately show ?thesis using accept [of "link_of h" f] by simp
qed

lemma link_send:
  "eventPump_step h h' \<Longrightarrow> ws_inv h \<Longrightarrow> link_of h' = link_of h \<or> link_step (link_of h) (link_of h')"
  "SendJSON_step b h h' \<Longrightarrow> ws_inv h \<Longrightarrow> link_of h' = link_of h \<or> link_step (link_of h) (link_of h')"
  by (auto intro: link_quiet link_enqueue elim!: eventPump_step.cases SendJSON_step.cases)

lemma link_close:
  assumes "HydraWS_Close_step h h'" and "ws_inv h"
  shows "link_of h' = link_of h \<or> link_step (link_of h) (link_of h')"
  using assms(1)
proof (cases rule: HydraWS_Close_step.cases)
  case (close_channel ch)
  have "holding (writers h k) = []" if "k < conns_made h" for k
    using close_channel(3) that by (cases "writers h k") (auto simp: all_returned_def idle_def)
  then have "under_way (link_of h) = {#}" by (simp add: link_of_def frames_held_def)
  moreover have "link_of h' = (link_of h)\<lparr>shut := True\<rparr>" "\<not> shut (link_of h)"
    using close_channel by (simp_all add: link_of_def frames_held_def loop_simps)
  ultimately show ?thesis using shut_down [of "link_of h"] by simp
qed (auto intro!: link_quiet)

interpretation link: simulation ws_step ws_reachable link_step link_of ws_inv
proof
  fix h h' :: HydraWS
  assume s: "ws_step h h'" and i: "ws_inv h"
  from s i show "ws_inv h'" by (rule ws_inv_step)
  from s i show "link_of h' = link_of h \<or> link_step (link_of h) (link_of h')"
    by cases (blast dest: link_quiet_steps link_write link_run link_send link_close)+
qed

section \<open>Properties\<close>

lemma link_of_new: "link_of (NewHydraWS url ch) = new_link"
  by (simp add: link_of_def new_link_def frames_held_def NewHydraWS_def)

text \<open>C4. The client is a bounded link that delivers at most once: to every execution of its
  goroutines, over any number of connections, corresponds an execution of the abstract link, in which
  frames are accepted while fewer than 1024 wait, leave in the order they were accepted, and are each
  arrived or dropped once, at most one being dropped for each dial; and which, once shut, moves
  no more.\<close>

theorem client_refines_link:
  assumes "ws_reachable (NewHydraWS url ch) h" and "\<forall>ev \<in> set (ch_buf ch). wf_ACEvent ev"
  shows "link_step\<^sup>*\<^sup>* new_link (link_of h)"
  using link.run_simulates [OF assms(1) ws_inv_init [OF assms(2)]] by (simp add: link_of_new)

theorem client_refines_link_witness:
  "\<exists>h :: HydraWS. wire h = [(0, sample_frame)] \<and> link_step\<^sup>*\<^sup>* new_link (link_of h)"
proof -
  obtain h where h: "ws_reachable (NewHydraWS ''ws://h'' (make_chan 1)) h" "wire h = [(0, sample_frame)]"
    using ws_sample by blast
  from client_refines_link [OF h(1)] h(2) show ?thesis by (intro exI [of _ h]) simp
qed

text \<open>C21. Nothing happens to frames any more once the queue is closed: whatever the client's
  callers still do, what was written, what was lost and what was left in the queue stay as they are.\<close>

theorem closed_is_final:
  assumes "ws_reachable (NewHydraWS url ch) h" and "\<forall>ev \<in> set (ch_buf ch). wf_ACEvent ev"
    and "ch_closed (sendCh h)" and "ws_reachable h h'"
  shows "map snd (wire h') = map snd (wire h) \<and> lost h' = lost h \<and> ch_buf (sendCh h') = ch_buf (sendCh h) \<and>
    ch_closed (sendCh h')"
proof -
  have "link_step\<^sup>*\<^sup>* (link_of h) (link_of h')"
    using link.run_simulates [OF assms(4) ws_reachable_invs [OF assms(1,2)]] .
  then have "link_of h' = link_of h"
    by (rule shut_link_stays) (simp add: link_of_def assms(3))
  with assms(3) show ?thesis by (simp add: link_of_def)
qed

theorem closed_is_final_witness:
  "\<exists>(h :: HydraWS) (h' :: HydraWS). closer h = CloseReturned \<and> panicked h' \<and> map snd (wire h') = map snd (wire h) \<and>
     lost h' = lost h \<and> ch_closed (sendCh h')"
proof -
  obtain h h' where h: "ws_reachable (NewHydraWS ''ws://h'' (make_chan 1)) h" "closer h = CloseReturned"
      "\<not> panicked h" "SendJSON_step [1] h h'" "panicked h'"
    using send_after_close [of "''ws://h''" 1 "[1]"] by blast
  have c: "ch_closed (sendCh h)" using ws_invs(6) [OF h(1)] h(2) by (simp add: close_inv_def)
  have "ws_reachable h h'" using ws_one [OF ws_json [OF h(3,4)]] .
  from closed_is_final [OF h(1) _ c this] h(2,5) show ?thesis by (intro exI [of _ h] exI [of _ h']) simp
qed

end
