(* ===== verification/Agent_WS_Live.thy ===== *)
theory Agent_WS_Live
  imports Agent_WS_Runs
begin

text \<open>
  That the client is never stuck: from whatever state its goroutines have got into, as long as nobody
  has called \<open>Close\<close>, an execution leads to a fresh connection whose writer empties the queue. Together
  with what \<open>Agent_WS_Runs\<close> shows of \<open>Close\<close> this leaves no state from which neither is possible.
\<close>

section \<open>Where the runner can be\<close>

definition runner_inv :: "HydraWS \<Rightarrow> bool" where
  "runner_inv h \<longleftrightarrow> (runner h = RunReturned \<longrightarrow> cancelled h) \<and>
     (\<forall>k. runner h = RunWait k \<longrightarrow> readers h k \<noteq> Absent) \<and>
     conns_closed h \<subseteq> {..<conns_made h} \<and> (\<forall>c. h_conn h = Some c \<longrightarrow> c < conns_made h)"

lemma runner_inv_drop: "runner_inv h \<Longrightarrow> runner_inv (drop_conn h)"
  by (auto simp: runner_inv_def drop_conn_def split: option.splits)

lemma runner_inv_run: "run_step h h' \<Longrightarrow> runner_inv h \<Longrightarrow> runner_inv h'"
proof (erule run_step.cases, goal_cases)
  case 1
  then show ?case by (auto simp: runner_inv_def elim!: connect_step.cases)
next
  case (4 g)
  then show ?case using runner_inv_drop [of g] by (auto simp: runner_inv_def)
qed (auto simp: runner_inv_def)

lemma runner_inv_close: "HydraWS_Close_step h h' \<Longrightarrow> runner_inv h \<Longrightarrow> runner_inv h'"
proof (erule HydraWS_Close_step.cases, goal_cases)
  case (2 g)
  then show ?case using runner_inv_drop [of g] by (auto simp: runner_inv_def)
qed (auto simp: runner_inv_def)

lemma runner_inv_quiet:
  assumes "runner_inv h" and "runner h' = runner h" and "cancelled h' = cancelled h"
    and "h_conn h' = h_conn h" and "conns_closed h' = conns_closed h" and "conns_made h' = conns_made h"
    and "\<And>k. readers h k \<noteq> Absent \<Longrightarrow> readers h' k \<noteq> Absent"
  shows "runner_inv h'"
  using assms by (simp add: runner_inv_def)

lemma runner_inv_steps:
  assumes "runner_inv h"
  shows "produce_step h h' \<Longrightarrow> runner_inv h'" and "eventPump_step h h' \<Longrightarrow> runner_inv h'"
    and "readLoop_step k h h' \<Longrightarrow> runner_inv h'" and "writeLoop_step k h h' \<Longrightarrow> runner_inv h'"
    and "pingLoop_step k h h' \<Longrightarrow> runner_inv h'" and "SendJSON_step b h h' \<Longrightarrow> runner_inv h'"
    and "configure_step h h' \<Longrightarrow> runner_inv h'"
  by (auto simp: with_defs intro!: runner_inv_quiet [OF assms] elim!: produce_step.cases
      eventPump_step.cases readLoop_step.cases writeLoop_step.cases pingLoop_step.cases
      SendJSON_step.cases configure_step.cases split: if_splits)

lemma runner_inv_step: "ws_step h h' \<Longrightarrow> runner_inv h \<Longrightarrow> runner_inv h'"
  by (erule ws_step_inv) (auto intro: runner_inv_run runner_inv_close runner_inv_steps)

section \<open>Executions that leave the frames alone\<close>

definition moves :: "HydraWS \<Rightarrow> HydraWS \<Rightarrow> bool" where
  "moves h h' \<longleftrightarrow> ws_reachable h h' \<and> sendCh h' = sendCh h \<and> wire h' = wire h \<and> lost h' = lost h \<and>
     cancelled h' = cancelled h \<and> panicked h' = panicked h"

lemma moves_refl [simp]: "moves h h"
  by (simp add: moves_def ws_start)

lemma moves_trans: "moves h h' \<Longrightarrow> moves h' h'' \<Longrightarrow> moves h h''"
  by (auto simp: moves_def intro: ws_reachable_trans)

lemma moves_step:
  assumes "ws_step h h'" and "sendCh h' = sendCh h" and "wire h' = wire h" and "lost h' = lost h"
    and "cancelled h' = cancelled h" and "panicked h' = panicked h"
  shows "moves h h'"
  using assms by (auto simp: moves_def intro: ws_one)

lemma moves_inv: "moves h h' \<Longrightarrow> runner_inv h \<and> reader_inv h \<Longrightarrow> runner_inv h' \<and> reader_inv h'"
  unfolding moves_def
  using ws_reachable_inv [where I = "\<lambda>h. runner_inv h \<and> reader_inv h"] runner_inv_step reader_inv_step by blast

definition reaches :: "(HydraWS \<Rightarrow> bool) \<Rightarrow> HydraWS \<Rightarrow> bool" where
  "reaches P h \<longleftrightarrow> (\<exists>h'. moves h h' \<and> P h')"

lemma reaches_now: "P h \<Longrightarrow> reaches P h"
  unfolding reaches_def using moves_refl by blast

lemma reaches_via: "moves h h' \<Longrightarrow> reaches P h' \<Longrightarrow> reaches P h"
  unfolding reaches_def using moves_trans by blast

text \<open>A alive client: nobody has called \<open>Close\<close>, nothing has panicked.\<close>

definition alive :: "HydraWS \<Rightarrow> bool" where
  "alive h \<longleftrightarrow> \<not> cancelled h \<and> \<not> panicked h \<and> runner_inv h \<and> reader_inv h"

lemma alive_moves: "moves h h' \<Longrightarrow> alive h \<Longrightarrow> alive h'"
  using moves_inv [of h h'] by (auto simp: alive_def moves_def)

definition ready :: "nat \<Rightarrow> HydraWS \<Rightarrow> bool" where \<comment> \<open>the writer of round \<open>k\<close> waits on an open connection\<close>
  "ready k h \<longleftrightarrow> (\<exists>c. writers h k = Selecting c \<and> c \<notin> conns_closed h)"

lemma reach_ready_dialing:
  assumes "alive h" and "runner h = RunDialing n"
  shows "reaches (\<lambda>h'. \<exists>k. ready k h') h"
proof -
  let ?k = "conns_made h"
  let ?h1 = "h\<lparr>h_conn := Some ?k, conns_made := Suc ?k, runner := RunWait ?k,
      readers := (readers h)(?k := Starting), writers := (writers h)(?k := Starting),
      pingers := (pingers h)(?k := Starting)\<rparr>"
  let ?h2 = "?h1\<lparr>writers := (writers ?h1)(?k := start_worker (h_conn ?h1))\<rparr>"
  have "ws_step h ?h1"
    using ws_run [OF _ run_connect [OF dial_ok [OF assms(2) refl]]] assms(1) by (simp add: alive_def)
  then have 1: "moves h ?h1" by (rule moves_step) simp_all
  have "ws_step ?h1 ?h2"
    using ws_write [OF _ writer_start [of ?h1 ?k]] assms(1) by (simp add: alive_def)
  then have 2: "moves ?h1 ?h2" by (rule moves_step) simp_all
  have "?k \<notin> conns_closed h" using assms(1) by (auto simp: alive_def runner_inv_def)
  then have r: "ready ?k ?h2" by (simp add: ready_def start_worker_def)
  show ?thesis
  proof (rule reaches_via [OF moves_trans [OF 1 2] reaches_now])
    show "\<exists>k. ready k ?h2" using r by (rule exI [of _ ?k])
  qed
qed

lemma reach_ready_connect:
  assumes "alive h" and "runner h = RunConnect n"
  shows "reaches (\<lambda>h'. \<exists>k. ready k h') h"
proof -
  have "ws_step h (h\<lparr>runner := RunDialing n\<rparr>)"
    using assms by (intro ws_run run_connect connect_dial) (simp_all add: alive_def)
  then have m: "moves h (h\<lparr>runner := RunDialing n\<rparr>)" by (rule moves_step) simp_all
  show ?thesis
    by (rule reaches_via [OF m reach_ready_dialing [OF alive_moves [OF m assms(1)]]]) simp
qed

lemma reach_ready_closing:
  assumes "alive h" and "runner h = RunClosing"
  shows "reaches (\<lambda>h'. \<exists>k. ready k h') h"
proof -
  let ?h = "(drop_conn h)\<lparr>runner := RunConnect 0\<rparr>"
  have "ws_step h ?h"
    using ws_run [OF _ run_close [OF assms(2)]] assms(1) by (simp add: alive_def)
  then have m: "moves h ?h" by (rule moves_step) simp_all
  show ?thesis by (rule reaches_via [OF m reach_ready_connect [OF alive_moves [OF m assms(1)]]]) simp
qed

text \<open>The reader of the round the runner waits for can end it.\<close>

lemma end_round:
  assumes "alive h" and "runner h = RunWait k"
  shows "reaches (\<lambda>h'. runner h' = RunWait k \<and> readers h' k = Returned) h"
proof -
  have stop: "reaches (\<lambda>h'. runner h' = RunWait k \<and> readers h' k = Returned) g"
    if "\<not> panicked g" "runner g = RunWait k" "readers g k = Selecting c" for g c
  proof -
    have "ws_step g (g\<lparr>readers := (readers g)(k := Returned)\<rparr>)"
      using that by (intro ws_read [of _ k] reader_error) auto
    then have "moves g (g\<lparr>readers := (readers g)(k := Returned)\<rparr>)" by (rule moves_step) simp_all
    then show ?thesis by (rule reaches_via) (simp add: reaches_now that)
  qed
  show ?thesis
  proof (cases "readers h k")
    case Starting
    let ?h = "h\<lparr>readers := (readers h)(k := start_worker (h_conn h))\<rparr>"
    have "ws_step h ?h" using assms Starting by (intro ws_read [of _ k] reader_start) (simp_all add: alive_def)
    then have m: "moves h ?h" by (rule moves_step) simp_all
    have "reaches (\<lambda>h'. runner h' = RunWait k \<and> readers h' k = Returned) ?h"
      using assms stop [of ?h] by (cases "h_conn h") (auto simp: start_worker_def alive_def intro: reaches_now)
    with m show ?thesis by (rule reaches_via)
  next
    case (Writing c f)
    with assms show ?thesis by (simp add: alive_def reader_inv_def)
  qed (use assms stop in \<open>auto simp: alive_def runner_inv_def intro: reaches_now\<close>)
qed

lemma reach_ready:
  assumes "alive h"
  shows "reaches (\<lambda>h'. \<exists>k. ready k h') h"
proof (cases "runner h")
  case (RunSleep n)
  have "ws_step h (h\<lparr>runner := RunConnect (Suc n)\<rparr>)"
    using assms RunSleep by (intro ws_run run_wake) (simp_all add: alive_def)
  then have m: "moves h (h\<lparr>runner := RunConnect (Suc n)\<rparr>)" by (rule moves_step) simp_all
  show ?thesis by (rule reaches_via [OF m reach_ready_connect [OF alive_moves [OF m assms]]]) simp
next
  case (RunWait k)
  obtain h1 where m1: "moves h h1" and h1: "runner h1 = RunWait k" "readers h1 k = Returned"
    using end_round [OF assms RunWait] by (auto simp: reaches_def)
  have l1: "alive h1" using m1 assms by (rule alive_moves)
  have "ws_step h1 (h1\<lparr>runner := RunClosing\<rparr>)"
    using l1 h1 by (intro ws_run run_select) (auto simp: alive_def)
  then have m2: "moves h1 (h1\<lparr>runner := RunClosing\<rparr>)" by (rule moves_step) simp_all
  show ?thesis
    by (rule reaches_via [OF moves_trans [OF m1 m2] reach_ready_closing [OF alive_moves [OF m2 l1]]]) simp
next
  case RunReturned
  with assms show ?thesis by (auto simp: alive_def runner_inv_def)
qed (use assms reach_ready_connect reach_ready_dialing reach_ready_closing in blast)+

section \<open>A ready writer empties the queue\<close>

lemma ready_writes:
  assumes "ready k h" and "\<not> panicked h" and "\<forall>f \<in> set (ch_buf (sendCh h)). data f \<noteq> None"
  shows "\<exists>h'. ws_reachable h h' \<and> map snd (wire h') = map snd (wire h) @ ch_buf (sendCh h) \<and>
    ch_buf (sendCh h') = [] \<and> lost h' = lost h"
  using assms
proof (induction "ch_buf (sendCh h)" arbitrary: h)
  case Nil
  then show ?case by (intro exI [of _ h]) (simp add: ws_start)
next
  case (Cons f fs)
  obtain c where c: "writers h k = Selecting c" "c \<notin> conns_closed h"
    using Cons.prems(1) by (auto simp: ready_def)
  have d: "data f \<noteq> None" using Cons.prems(3) Cons.hyps(2) by (metis list.set_intros(1))
  let ?h1 = "h\<lparr>sendCh := (sendCh h)\<lparr>ch_buf := fs\<rparr>, dequeued := dequeued h @ [f],
      writers := (writers h)(k := Writing c f)\<rparr>"
  let ?h2 = "?h1\<lparr>wire := wire h @ [(c, f)], writers := (writers ?h1)(k := Selecting c)\<rparr>"
  have "ws_step h ?h1"
    using ws_write [OF Cons.prems(2) writer_recv [OF c(1), of f "(sendCh h)\<lparr>ch_buf := fs\<rparr>"]] d Cons.hyps(2) [symmetric]
    by (simp add: loop_simps)
  moreover have "ws_step ?h1 ?h2"
    using ws_write [OF _ writer_ok [of ?h1 k c f]] c Cons.prems(2) by simp
  ultimately have r: "ws_reachable h ?h2" by (meson ws_start ws_more)
  have "\<forall>g \<in> set fs. data g \<noteq> None" using Cons.prems(3) Cons.hyps(2) [symmetric] by simp
  then obtain h' where "ws_reachable ?h2 h'" "map snd (wire h') = map snd (wire ?h2) @ fs"
      "ch_buf (sendCh h') = []" "lost h' = lost h"
    using Cons.hyps(1) [of ?h2] Cons.prems(2) c by (auto simp: ready_def)
  with r Cons.hyps(2) show ?case
    by (intro exI [of _ h']) (auto intro: ws_reachable_trans)
qed

section \<open>Properties\<close>

text \<open>C15. As long as \<open>Close\<close> has not been called, everything in the queue can still be delivered:
  from every state the client can be in, however its connections and goroutines have failed, an
  execution writes the queued frames in order, behind what was written before, and loses none.\<close>

theorem queue_can_drain:
  assumes "ws_reachable (NewHydraWS url ch) h" and "\<forall>ev \<in> set (ch_buf ch). wf_ACEvent ev"
    and "\<not> cancelled h"
  shows "\<exists>h'. ws_reachable h h' \<and> map snd (wire h') = map snd (wire h) @ ch_buf (sendCh h) \<and>
    ch_buf (sendCh h') = [] \<and> lost h' = lost h"
proof -
  note i = ws_invs [OF assms(1,2)]
  have "runner_inv h \<and> reader_inv h"
    using ws_reachable_inv [where I = "\<lambda>h. runner_inv h \<and> reader_inv h", OF assms(1)] runner_inv_step reader_inv_step
    by (auto simp: runner_inv_def reader_inv_def NewHydraWS_def)
  moreover have "\<not> panicked h" using i(6,7) assms(3) by (auto simp: close_inv_def panic_inv_def)
  ultimately have "alive h" using assms(3) by (simp add: alive_def)
  then obtain h1 k where h1: "moves h h1" "ready k h1" using reach_ready unfolding reaches_def by blast
  have "\<forall>f \<in> set (ch_buf (sendCh h1)). data f \<noteq> None"
    using i(1) h1(1) by (auto simp: send_queue_inv_def moves_def)
  with ready_writes [OF h1(2)] h1(1) \<open>\<not> panicked h\<close> obtain h' where "ws_reachable h1 h'"
      "map snd (wire h') = map snd (wire h) @ ch_buf (sendCh h)" "ch_buf (sendCh h') = []" "lost h' = lost h"
    by (auto simp: moves_def)
  with h1(1) show ?thesis by (auto simp: moves_def intro: ws_reachable_trans)
qed

theorem queue_can_drain_witness:
  "\<exists>h h' f. ws_reachable (NewHydraWS ''ws://h'' (make_chan 1)) h \<and> ch_buf (sendCh h) = [f] \<and> wire h = [] \<and>
    ws_reachable h h' \<and> map snd (wire h') = [f]"
proof -
  let ?i = "NewHydraWS ''ws://h'' (make_chan 1)" and ?f = "\<lparr>mt = TextMessage, data = Some [1]\<rparr>"
  let ?h = "?i\<lparr>sendCh := (make_chan 1024)\<lparr>ch_buf := [?f]\<rparr>, queued := [?f]\<rparr>"
  have "ws_step ?i ?h"
    using ws_json [OF _ json_sent [of ?f "[1]" ?i]] by (simp add: NewHydraWS_def loop_simps)
  then have r: "ws_reachable ?i ?h" by (rule ws_one)
  have w: "wire ?h = []" by (simp add: NewHydraWS_def)
  from queue_can_drain [OF r] obtain h' where "ws_reachable ?h h'" "map snd (wire h') = [?f]"
    by (auto simp: NewHydraWS_def)
  with r w show ?thesis by (intro exI [of _ ?h] exI [of _ h'] exI [of _ ?f]) simp
qed

end
