(* ===== verification/Backend_Event.thy ===== *)
theory Backend_Event
  imports Event_Text
begin

text \<open>
  The backend's own declaration of the event and of its text functions
  (\<^verbatim>\<open>MedusaBackend/Event.go\<close>). Nothing but the agreement of two struct declarations makes the bytes
  the agent sends mean the same to the backend, so the backend's record is a second record here and
  the agreement is proved: \<open>to_backend\<close> says what the backend should see of an agent's event. The
  text functions differ from the agent's in the decoder they call, which the lemmas at the end
  compare.
\<close>

section \<open>The backend's event\<close>

definition KM_be :: i32 where "KM_be = 0"
definition UM_be :: i32 where "UM_be = 1"
definition DLL_be :: i32 where "DLL_be = 2"

record ACEvent_be =
  Src_be :: i32
  EventType_be :: "u16 list"
  CallerPID_be :: i32
  TargetPID_be :: i32
  ThreadID_be :: i32
  ImageFileName_be :: "i32 list"
  CommandLine_be :: "u16 list"
  IsCreate_be :: i32
  ImageBase_be :: uintptr
  ImageSize_be :: u32

definition ACEvent_be_shape :: "field_shape list" where
  "ACEvent_be_shape = [shape_u32, shape_array 260 shape_u16, shape_u32, shape_u32, shape_u32,
     shape_array 260 shape_u32, shape_array 1024 shape_u16, shape_u32, shape_u64, shape_u32]"

definition evtSz_be :: nat where
  "evtSz_be = go_sizeof ACEvent_be_shape"

text \<open>\<open>copy\<close> of a message into a zeroed variable.\<close>

definition event_of_message :: "u8 list \<Rightarrow> ACEvent_be" where
  "event_of_message msg =
     (let off = (\<lambda>i. field_offsets 0 ACEvent_be_shape ! i) in
      \<lparr>Src_be = dec_u32 (field_at (off 0) 4 msg),
       EventType_be = dec_array 2 dec_u16 260 (field_at (off 1) 520 msg),
       CallerPID_be = dec_u32 (field_at (off 2) 4 msg),
       TargetPID_be = dec_u32 (field_at (off 3) 4 msg),
       ThreadID_be = dec_u32 (field_at (off 4) 4 msg),
       ImageFileName_be = dec_array 4 dec_u32 260 (field_at (off 5) 1040 msg),
       CommandLine_be = dec_array 2 dec_u16 1024 (field_at (off 6) 2048 msg),
       IsCreate_be = dec_u32 (field_at (off 7) 4 msg),
       ImageBase_be = dec_u64 (field_at (off 8) 8 msg),
       ImageSize_be = dec_u32 (field_at (off 9) 4 msg)\<rparr>)"

section \<open>Its text\<close>

definition utf16BufToString :: "u16 list \<Rightarrow> string" where
  "utf16BufToString buf = string_of_runes (utf16_decode buf)"

definition utf16ToString_be :: "u16 list \<Rightarrow> string" where
  "utf16ToString_be buf = utf16BufToString (take (nul_index buf 0) buf)"

definition int32ToString_be :: "i32 list \<Rightarrow> string" where
  "int32ToString_be buf = utf16BufToString (int32_units buf)"

definition event_fields_be :: "ACEvent_be \<Rightarrow> (string \<times> jval) list" where
  "event_fields_be e =
     [(''Src'', JInt (sint (Src_be e))),
      (''EventType'', JStr (utf16ToString_be (EventType_be e))),
      (''CallerPID'', JInt (sint (CallerPID_be e))),
      (''TargetPID'', JInt (sint (TargetPID_be e))),
      (''ThreadID'', JInt (sint (ThreadID_be e))),
      (''ImageFileName'', JStr (int32ToString_be (ImageFileName_be e))),
      (''CommandLine'', JStr (utf16ToString_be (CommandLine_be e))),
      (''IsCreate'', JInt (sint (IsCreate_be e))),
      (''ImageBase'', JInt (uint (ImageBase_be e))),
      (''ImageSize'', JInt (uint (ImageSize_be e)))]"

definition ToJSON_be :: "ACEvent_be \<Rightarrow> string \<times> string option" where
  "ToJSON_be e = (case json_Marshal (event_fields_be e) of
       Inl err \<Rightarrow> ([], Some err)
     | Inr data \<Rightarrow> (data, None))"

section \<open>The two declarations agree\<close>

definition to_backend :: "ACEvent \<Rightarrow> ACEvent_be" where
  "to_backend e =
     \<lparr>Src_be = Src e, EventType_be = EventType e, CallerPID_be = CallerPID e,
      TargetPID_be = TargetPID e, ThreadID_be = ThreadID e, ImageFileName_be = ImageFileName e,
      CommandLine_be = CommandLine e, IsCreate_be = IsCreate e, ImageBase_be = ImageBase e,
      ImageSize_be = ImageSize e\<rparr>"

lemma shapes_agree: "ACEvent_be_shape = ACEvent_shape"
  by (simp add: ACEvent_be_shape_def ACEvent_shape_def)

lemma evtSz_be_eq [simp]: "evtSz_be = ACEvent_size"
  by (simp only: evtSz_be_def ACEvent_size_def shapes_agree)

lemma event_of_message_eq: "event_of_message msg = to_backend (ACEvent_of_bytes msg)"
  by (simp add: event_of_message_def ACEvent_of_bytes_def to_backend_def shapes_agree Let_def)

lemma event_of_evToBytes [simp]:
  "wf_ACEvent ev \<Longrightarrow> event_of_message (evToBytes pad ev) = to_backend ev"
  by (simp add: event_of_message_eq)

section \<open>The two decoders\<close>

text \<open>Text both sides read alike: no unpaired surrogate, and in a name stored as \<open>int32\<close> no value
  whose low half is zero.\<close>

definition plain_text :: "ACEvent \<Rightarrow> bool" where
  "plain_text e \<longleftrightarrow>
     wf_utf16 (takeWhile (\<lambda>c. c \<noteq> 0) (EventType e)) \<and>
     wf_utf16 (takeWhile (\<lambda>c. c \<noteq> 0) (CommandLine e)) \<and>
     wf_utf16 (int32_units (ImageFileName e)) \<and> 0 \<notin> set (int32_units (ImageFileName e))"

lemma utf16ToString_agree:
  assumes "wf_utf16 (takeWhile (\<lambda>c. c \<noteq> 0) buf)"
  shows "utf16ToString_be buf = utf16ToString buf"
  using assms
  by (simp add: utf16ToString_be_def utf16ToString_eq utf16BufToString_def
      syscall_UTF16ToString_def decodeWTF16_wf string_of_runes_def)

lemma int32ToString_agree:
  assumes "wf_utf16 (int32_units buf)" and "0 \<notin> set (int32_units buf)"
  shows "int32ToString_be buf = int32ToString buf"
proof -
  have "takeWhile (\<lambda>c. c \<noteq> 0) (int32_units buf) = int32_units buf"
    using assms(2) by (auto simp: takeWhile_eq_all_conv)
  then show ?thesis
    unfolding int32ToString_be_def int32ToString_def utf16BufToString_def syscall_UTF16ToString_def
    using assms(1) by (simp only: decodeWTF16_wf string_of_runes_def)
qed

lemma ToJSON_agree: "plain_text e \<Longrightarrow> ToJSON_be (to_backend e) = ToJSON e"
  by (simp add: ToJSON_be_def ToJSON_def event_fields_be_def event_fields_def to_backend_def
      plain_text_def utf16ToString_agree int32ToString_agree)

lemma utf16BufToString_valid [simp]: "to_valid_utf8 (utf16BufToString us) = utf16BufToString us"
  by (simp add: utf16BufToString_def utf16_decode_valid)

lemma event_fields_be_sorted:
  "sort_key fst (event_fields_be e) =
     [(''CallerPID'', JInt (sint (CallerPID_be e))),
      (''CommandLine'', JStr (utf16ToString_be (CommandLine_be e))),
      (''EventType'', JStr (utf16ToString_be (EventType_be e))),
      (''ImageBase'', JInt (uint (ImageBase_be e))),
      (''ImageFileName'', JStr (int32ToString_be (ImageFileName_be e))),
      (''ImageSize'', JInt (uint (ImageSize_be e))),
      (''IsCreate'', JInt (sint (IsCreate_be e))),
      (''Src'', JInt (sint (Src_be e))),
      (''TargetPID'', JInt (sint (TargetPID_be e))),
      (''ThreadID'', JInt (sint (ThreadID_be e)))]"
  by (simp add: event_fields_be_def)

text \<open>The backend's text is always valid, so its JSON carries it without loss.\<close>

lemma read_ToJSON_be:
  "snd (ToJSON_be e) = None"
  "read_object (fst (ToJSON_be e)) = Some (sort_key fst (event_fields_be e))"
  using read_json_marshal_map [of "event_fields_be e"]
  by (simp_all add: ToJSON_be_def json_Marshal_def event_fields_be_sorted utf16ToString_be_def
      int32ToString_be_def) (simp add: event_fields_be_def)

lemma wtf_unpaired_differs:
  "utf16ToString [0xD800] \<noteq> utf16ToString_be [0xD800]"
  by (simp add: utf16ToString_eq utf16ToString_be_def utf16BufToString_def syscall_UTF16ToString_def
      is_high_def is_low_def encode3_def string_of_runes_def bytes_of_runes_def RuneError_def
      encode_rune_def is_surrogate_def bytes_string_def)

section \<open>When the two decoders agree\<close>

lemma encode3_surrogate:
  assumes "is_high c \<or> is_low c"
  shows "encode3 (unat c) \<noteq> encode_rune RuneError" and "length (encode3 (unat c)) = length (encode_rune RuneError)"
    and "\<forall>b \<in> set (encode3 (unat c)). b < 256"
proof -
  have "unat c div 4096 = 13"
    using assms by (auto simp: is_high_def is_low_def)
  then show "encode3 (unat c) \<noteq> encode_rune RuneError"
    and "length (encode3 (unat c)) = length (encode_rune RuneError)"
    and "\<forall>b \<in> set (encode3 (unat c)). b < 256"
    by (auto simp: encode3_def encode_rune_def RuneError_def is_surrogate_def)
qed

lemma bytes_of_runes_Cons [simp]: "bytes_of_runes (r # rs) = encode_rune r @ bytes_of_runes rs"
  by (simp add: bytes_of_runes_def)

lemma decodeWTF16_iff: "decodeWTF16 us = bytes_of_runes (utf16_decode us) \<longleftrightarrow> wf_utf16 us"
proof (induction us rule: decodeWTF16.induct)
  case 1
  then show ?case by (simp add: bytes_of_runes_def)
next
  case (2 c cs)
  then show ?case
    using encode3_surrogate [of c]
    by (cases cs) (auto simp: bytes_of_runes_def)
qed

lemma decodeWTF16_bytes: "b \<in> set (decodeWTF16 us) \<Longrightarrow> b < 256"
proof (induction us rule: decodeWTF16.induct)
  case 1
  then show ?case by simp
next
  case (2 c cs)
  then show ?case
    using encode3_surrogate(3) [of c] encode_rune_bytes [of b]
    by (cases cs) (auto split: if_splits)
qed

lemma bytes_string_inj:
  assumes "\<forall>b \<in> set xs. b < 256" and "\<forall>b \<in> set ys. b < 256" and "bytes_string xs = bytes_string ys"
  shows "xs = ys"
proof -
  have "map (of_char :: char \<Rightarrow> nat) (bytes_string zs) = zs" if "\<forall>b \<in> set zs. b < 256" for zs
    using that by (induction zs) (simp_all add: bytes_string_def)
  with assms show ?thesis by metis
qed

lemma utf16ToString_agree_iff:
  "utf16ToString_be buf = utf16ToString buf \<longleftrightarrow> wf_utf16 (takeWhile (\<lambda>c. c \<noteq> 0) buf)"
proof -
  let ?us = "takeWhile (\<lambda>c. c \<noteq> 0) buf"
  have b: "\<forall>b \<in> set (bytes_of_runes rs). b < 256" for rs
    by (auto simp: bytes_of_runes_def dest: encode_rune_bytes)
  have "utf16ToString_be buf = utf16ToString buf \<longleftrightarrow>
      bytes_string (bytes_of_runes (utf16_decode ?us)) = bytes_string (decodeWTF16 ?us)"
    by (simp add: utf16ToString_be_def utf16ToString_eq utf16BufToString_def
        syscall_UTF16ToString_def string_of_runes_def)
  also have "\<dots> \<longleftrightarrow> decodeWTF16 ?us = bytes_of_runes (utf16_decode ?us)"
    using bytes_string_inj [OF b, of "decodeWTF16 ?us"] decodeWTF16_bytes by metis
  finally show ?thesis by (simp only: decodeWTF16_iff)
qed

section \<open>Properties\<close>

text \<open>C33. The agent and the backend, which decode UTF-16 with different library
  functions, read the same string from a buffer exactly when it holds no unpaired surrogate before
  its terminator; otherwise the agent keeps the surrogate as an invalid sequence and the backend
  puts the replacement character.\<close>

theorem decoders_agree_iff:
  "utf16ToString_be buf = utf16ToString buf \<longleftrightarrow> wf_utf16 (takeWhile (\<lambda>c. c \<noteq> 0) buf)"
  by (rule utf16ToString_agree_iff)

text \<open>For an event whose texts are well-formed UTF-16, with no value in the
  image name whose low half is zero, the JSON the backend prints is byte for byte the JSON
  the agent would make of it.\<close>

lemma backend_prints_as_agent:
  assumes "wf_utf16 (takeWhile (\<lambda>c. c \<noteq> 0) (EventType e))"
    and "wf_utf16 (takeWhile (\<lambda>c. c \<noteq> 0) (CommandLine e))"
    and "wf_utf16 (int32_units (ImageFileName e))" and "0 \<notin> set (int32_units (ImageFileName e))"
  shows "ToJSON_be (to_backend e) = ToJSON e"
  using assms by (intro ToJSON_agree) (simp add: plain_text_def)

end
