(* ===== verification/Backend_Server.thy ===== *)
theory Backend_Server
  imports Backend_Event Go_Channel Transition
begin

text \<open>
  The backend's WebSocket server (\<^verbatim>\<open>MedusaBackend/WSServer.go\<close>) and its main program
  (\<^verbatim>\<open>Main.go\<close>). The goroutines (one \<open>handleWS\<close> per connection, the broadcaster, the consumer and
  the main loop) share the channels, the set of connections and the lock on it; each atomic piece of
  a goroutine is a function on the server's state, and the relation \<open>srv_step\<close> lets any goroutine
  whose guard holds take the next step. The WebSocket library and the network are the
  environment: which frames arrive, and whether a write succeeds, is not determined. The record's
  last fields are the history the theorems speak about; no guard reads them.
\<close>

section \<open>State\<close>

type_synonym conn = nat

text \<open>Where the handler of a connection is: upgraded and waiting for the lock, reading, blocked in
  the select that sends an event, in its deferred function waiting for the lock, or returned.\<close>

datatype handler = NoConn | Upgraded | Reading | Sending ACEvent_be | Leaving | Gone

text \<open>Where the broadcaster is: in its select; holding the read lock in the loop over the
  connections, with the command, the connections present when the loop began and those visited;
  waiting for the write lock to drop a connection; waiting to read-lock again; or returned.\<close>

datatype caster =
    CastSelect
  | CastLoop string "conn set" "conn list"
  | CastDrop string "conn set" "conn list" conn
  | CastRelock string "conn set" "conn list"
  | CastReturned

record HydraWSServer =
  Addr :: string
  UrlPath :: string
  Recv :: "ACEvent_be chan"
  SendText :: "string chan"
  readLimit :: int
  conns :: "conn set"
  ctx_done :: bool
  closing :: bool \<comment> \<open>inside \<open>Close\<close>, before \<open>close(h.Recv)\<close>\<close>
  handlers :: "conn \<Rightarrow> handler"
  broadcaster :: caster
  sock_closed :: "conn set"
  crashed :: bool \<comment> \<open>the process ended in a panic\<close>
  frames :: "(conn \<times> msg_type \<times> u8 list) list" \<comment> \<open>every frame read\<close>
  accepted :: "(conn \<times> ACEvent_be) list" \<comment> \<open>every event sent to \<open>Recv\<close>\<close>
  consumed :: "ACEvent_be list"
  printed :: "string list"
  written :: "(conn \<times> string) list" \<comment> \<open>every command written\<close>
  delivered :: "conn list" \<comment> \<open>where the command of the current round has been written\<close>
  panics :: "conn list" \<comment> \<open>handlers that panicked\<close>

definition NewHydraWSServer :: "string \<Rightarrow> string \<Rightarrow> nat \<Rightarrow> HydraWSServer" where
  "NewHydraWSServer addr path buf =
     \<lparr>Addr = addr, UrlPath = path, Recv = make_chan buf, SendText = make_chan buf,
      readLimit = 16 * 2 ^ 20, conns = {}, ctx_done = False, closing = False,
      handlers = (\<lambda>_. NoConn), broadcaster = CastSelect, sock_closed = {}, crashed = False,
      frames = [], accepted = [], consumed = [], printed = [], written = [],
      delivered = [], panics = []\<rparr>"

section \<open>The handler of a connection\<close>

definition set_handler :: "conn \<Rightarrow> handler \<Rightarrow> HydraWSServer \<Rightarrow> HydraWSServer" where
  "set_handler c pc s = s\<lparr>handlers := (handlers s)(c := pc)\<rparr>"

definition register_conn :: "conn \<Rightarrow> HydraWSServer \<Rightarrow> HydraWSServer" where
  "register_conn c s = set_handler c Reading (s\<lparr>conns := insert c (conns s)\<rparr>)"

text \<open>The deferred function: delete from the map, close the connection.\<close>

definition unregister_conn :: "conn \<Rightarrow> HydraWSServer \<Rightarrow> HydraWSServer" where
  "unregister_conn c s =
     set_handler c Gone (s\<lparr>conns := conns s - {c}, sock_closed := insert c (sock_closed s)\<rparr>)"

definition frame_event :: "msg_type \<Rightarrow> u8 list \<Rightarrow> ACEvent_be option" where
  "frame_event mt msg =
     (if mt \<noteq> BinaryMessage \<or> length msg \<noteq> evtSz_be then None else Some (event_of_message msg))"

text \<open>A frame was read: skip it or go on to the select with the event.\<close>

definition handle_frame :: "conn \<Rightarrow> msg_type \<Rightarrow> u8 list \<Rightarrow> HydraWSServer \<Rightarrow> HydraWSServer" where
  "handle_frame c mt msg s =
     (let s = s\<lparr>frames := frames s @ [(c, mt, msg)]\<rparr> in
      case frame_event mt msg of
        None \<Rightarrow> s
      | Some ev \<Rightarrow> set_handler c (Sending ev) s)"

text \<open>The send case of the select: \<open>None\<close> while it cannot proceed. A send to a closed channel panics;
  \<open>net/http\<close> recovers a panic of a handler, after the deferred function has run.\<close>

definition deliver :: "conn \<Rightarrow> ACEvent_be \<Rightarrow> HydraWSServer \<Rightarrow> HydraWSServer option" where
  "deliver c ev s =
     (case chan_send (Recv s) ev of
        Sent ch \<Rightarrow> Some (set_handler c Reading (s\<lparr>Recv := ch, accepted := accepted s @ [(c, ev)]\<rparr>))
      | SendPanics \<Rightarrow> Some (set_handler c Leaving (s\<lparr>panics := panics s @ [c]\<rparr>))
      | SendBlocks \<Rightarrow> None)"

section \<open>The broadcaster\<close>

definition cast_write_ok :: "string \<Rightarrow> conn set \<Rightarrow> conn list \<Rightarrow> conn \<Rightarrow> HydraWSServer \<Rightarrow> HydraWSServer" where
  "cast_write_ok cmd must seen c s =
     s\<lparr>written := written s @ [(c, cmd)], delivered := delivered s @ [c],
        broadcaster := CastLoop cmd must (seen @ [c])\<rparr>"

definition cast_write_err :: "string \<Rightarrow> conn set \<Rightarrow> conn list \<Rightarrow> conn \<Rightarrow> HydraWSServer \<Rightarrow> HydraWSServer" where
  "cast_write_err cmd must seen c s =
     s\<lparr>sock_closed := insert c (sock_closed s), broadcaster := CastDrop cmd must (seen @ [c]) c\<rparr>"

definition cast_drop :: "string \<Rightarrow> conn set \<Rightarrow> conn list \<Rightarrow> conn \<Rightarrow> HydraWSServer \<Rightarrow> HydraWSServer" where
  "cast_drop cmd must seen c s =
     s\<lparr>conns := conns s - {c}, broadcaster := CastRelock cmd must seen\<rparr>"

text \<open>The read lock is held inside the loop only, so a writer of the map waits exactly there.\<close>

definition read_locked :: "HydraWSServer \<Rightarrow> bool" where
  "read_locked s \<longleftrightarrow> (case broadcaster s of CastLoop _ _ _ \<Rightarrow> True | _ \<Rightarrow> False)"

section \<open>Closing, and the main program\<close>

definition Close_cancel :: "HydraWSServer \<Rightarrow> HydraWSServer" where
  "Close_cancel s = s\<lparr>ctx_done := True, closing := True\<rparr>"

definition Close_recv :: "HydraWSServer \<Rightarrow> HydraWSServer" where
  "Close_recv s =
     (case chan_close (Recv s) of
        Closed ch \<Rightarrow> s\<lparr>Recv := ch, closing := False\<rparr>
      | ClosePanics \<Rightarrow> s\<lparr>crashed := True\<rparr>)"

definition consume :: "HydraWSServer \<Rightarrow> HydraWSServer option" where
  "consume s =
     (case chan_recv (Recv s) of
        Received ev ch \<Rightarrow>
          Some (s\<lparr>Recv := ch, consumed := consumed s @ [ev],
                 printed := (case ToJSON_be ev of (js, None) \<Rightarrow> printed s @ [js]
                                              | (js, Some err) \<Rightarrow> printed s)\<rparr>)
      | _ \<Rightarrow> None)"

definition main_command :: "HydraWSServer \<Rightarrow> HydraWSServer option" where
  "main_command s =
     (case chan_send (SendText s) ''scanDLL'' of
        Sent ch \<Rightarrow> Some (s\<lparr>SendText := ch\<rparr>)
      | _ \<Rightarrow> None)"

definition main_server :: HydraWSServer where
  "main_server = NewHydraWSServer ''0.0.0.0:8080'' ''/'' 1024"

section \<open>Steps\<close>

text \<open>The handler of connection \<open>c\<close>: \<open>handleWS\<close>.\<close>

inductive handleWS_step :: "conn \<Rightarrow> HydraWSServer \<Rightarrow> HydraWSServer \<Rightarrow> bool" where
  upgrade: "handlers s c = NoConn \<Longrightarrow> handleWS_step c s (set_handler c Upgraded s)"
| register: "handlers s c = Upgraded \<Longrightarrow> \<not> read_locked s \<Longrightarrow> handleWS_step c s (register_conn c s)"
| read: "handlers s c = Reading \<Longrightarrow> handleWS_step c s (handle_frame c mt msg s)"
| read_error: "handlers s c = Reading \<Longrightarrow> handleWS_step c s (set_handler c Leaving s)"
| send: "handlers s c = Sending ev \<Longrightarrow> deliver c ev s = Some s' \<Longrightarrow> handleWS_step c s s'"
| send_done: "handlers s c = Sending ev \<Longrightarrow> ctx_done s \<Longrightarrow>
    handleWS_step c s (set_handler c Leaving s)"
| unregister: "handlers s c = Leaving \<Longrightarrow> \<not> read_locked s \<Longrightarrow>
    handleWS_step c s (unregister_conn c s)"

text \<open>The goroutines of \<open>Start\<close>: the broadcaster, and the listener when it fails. The loop over the
  map visits every entry that is there from its beginning to its end once, an entry deleted
  meanwhile is not visited afterwards, and one added meanwhile may be.\<close>

inductive Start_step :: "HydraWSServer \<Rightarrow> HydraWSServer \<Rightarrow> bool" where
  cast_begin: "broadcaster s = CastSelect \<Longrightarrow> chan_recv (SendText s) = Received cmd ch \<Longrightarrow>
    Start_step s (s\<lparr>SendText := ch, broadcaster := CastLoop cmd (conns s) [], delivered := []\<rparr>)"
| cast_ok: "broadcaster s = CastLoop cmd must seen \<Longrightarrow> c \<in> conns s \<Longrightarrow> c \<notin> set seen \<Longrightarrow>
    c \<notin> sock_closed s \<Longrightarrow> Start_step s (cast_write_ok cmd must seen c s)"
| cast_err: "broadcaster s = CastLoop cmd must seen \<Longrightarrow> c \<in> conns s \<Longrightarrow> c \<notin> set seen \<Longrightarrow>
    Start_step s (cast_write_err cmd must seen c s)"
| cast_dropped: "broadcaster s = CastDrop cmd must seen c \<Longrightarrow>
    Start_step s (cast_drop cmd must seen c s)"
| cast_relock: "broadcaster s = CastRelock cmd must seen \<Longrightarrow>
    Start_step s (s\<lparr>broadcaster := CastLoop cmd must seen\<rparr>)"
| cast_end: "broadcaster s = CastLoop cmd must seen \<Longrightarrow> must \<inter> conns s \<subseteq> set seen \<Longrightarrow>
    Start_step s (s\<lparr>broadcaster := CastSelect\<rparr>)"
| cast_ping: "broadcaster s = CastSelect \<Longrightarrow> Start_step s s"
| cast_return: "broadcaster s = CastSelect \<Longrightarrow> ctx_done s \<Longrightarrow>
    Start_step s (s\<lparr>broadcaster := CastReturned\<rparr>)"
| listen_error: "Start_step s (s\<lparr>ctx_done := True\<rparr>)"

inductive Server_Close_step :: "HydraWSServer \<Rightarrow> HydraWSServer \<Rightarrow> bool" where
  close_cancel: "\<not> closing s \<Longrightarrow> Server_Close_step s (Close_cancel s)"
| close_recv: "closing s \<Longrightarrow> Server_Close_step s (Close_recv s)"

inductive main_step :: "HydraWSServer \<Rightarrow> HydraWSServer \<Rightarrow> bool" where
  consumer: "consume s = Some s' \<Longrightarrow> main_step s s'"
| command: "main_command s = Some s' \<Longrightarrow> main_step s s'"

inductive srv_step :: "HydraWSServer \<Rightarrow> HydraWSServer \<Rightarrow> bool" where
  "\<not> crashed s \<Longrightarrow> handleWS_step c s s' \<Longrightarrow> srv_step s s'"
| "\<not> crashed s \<Longrightarrow> Start_step s s' \<Longrightarrow> srv_step s s'"
| "\<not> crashed s \<Longrightarrow> Server_Close_step s s' \<Longrightarrow> srv_step s s'"
| "\<not> crashed s \<Longrightarrow> main_step s s' \<Longrightarrow> srv_step s s'"

inductive srv_reachable :: "HydraWSServer \<Rightarrow> HydraWSServer \<Rightarrow> bool" for s0 where
  srv_start: "srv_reachable s0 s0"
| srv_more: "srv_reachable s0 s \<Longrightarrow> srv_step s s' \<Longrightarrow> srv_reachable s0 s'"

section \<open>Invariants\<close>

definition live :: "handler \<Rightarrow> bool" where
  "live pc \<longleftrightarrow> (case pc of Reading \<Rightarrow> True | Sending _ \<Rightarrow> True | Leaving \<Rightarrow> True | _ \<Rightarrow> False)"

text \<open>The map holds connections with a live handler only, and a broken one only while the
  broadcaster is about to delete it.\<close>

definition conns_inv :: "HydraWSServer \<Rightarrow> bool" where
  "conns_inv s \<longleftrightarrow>
     (\<forall>c \<in> conns s. live (handlers s c)) \<and>
     (\<forall>c \<in> sock_closed s. handlers s c \<noteq> NoConn \<and> handlers s c \<noteq> Upgraded) \<and>
     (\<forall>c \<in> conns s \<inter> sock_closed s. \<exists>cmd must seen. broadcaster s = CastDrop cmd must seen c)"

text \<open>Events leave the backend in the order they were accepted.\<close>

definition queue_inv :: "HydraWSServer \<Rightarrow> bool" where
  "queue_inv s \<longleftrightarrow>
     wf_chan (Recv s) \<and> map snd (accepted s) = consumed s @ ch_buf (Recv s) \<and>
     printed s = map (\<lambda>ev. fst (ToJSON_be ev)) (consumed s) \<and>
     (crashed s \<or> panics s \<noteq> [] \<longrightarrow> ch_closed (Recv s)) \<and>
     (closing s \<or> ch_closed (Recv s) \<longrightarrow> ctx_done s)"

text \<open>The events of a connection: those its frames stand for, and those accepted from it.\<close>

definition frame_events :: "conn \<Rightarrow> HydraWSServer \<Rightarrow> ACEvent_be list" where
  "frame_events c s =
     List.map_filter (\<lambda>(c', mt, msg). if c' = c then frame_event mt msg else None) (frames s)"

definition accepted_from :: "conn \<Rightarrow> HydraWSServer \<Rightarrow> ACEvent_be list" where
  "accepted_from c s = map snd (filter (\<lambda>(c', ev). c' = c) (accepted s))"

definition pending :: "handler \<Rightarrow> ACEvent_be list" where
  "pending pc = (case pc of Sending ev \<Rightarrow> [ev] | _ \<Rightarrow> [])"

definition order_inv :: "HydraWSServer \<Rightarrow> bool" where
  "order_inv s \<longleftrightarrow>
     (\<forall>c. frame_events c s = accepted_from c s @ pending (handlers s c) \<or>
          (ctx_done s \<and> (handlers s c = Leaving \<or> handlers s c = Gone) \<and>
           (\<exists>ev. frame_events c s = accepted_from c s @ [ev])))"

text \<open>The connections visited in the current round.\<close>

fun visited :: "caster \<Rightarrow> conn list" where
  "visited CastSelect = []"
| "visited (CastLoop cmd must seen) = seen"
| "visited (CastDrop cmd must seen c) = seen"
| "visited (CastRelock cmd must seen) = seen"
| "visited CastReturned = []"

definition in_round :: "caster \<Rightarrow> bool" where
  "in_round b \<longleftrightarrow> b \<noteq> CastSelect \<and> b \<noteq> CastReturned"

fun round_cmd :: "caster \<Rightarrow> string" where
  "round_cmd (CastLoop cmd must seen) = cmd"
| "round_cmd (CastDrop cmd must seen c) = cmd"
| "round_cmd (CastRelock cmd must seen) = cmd"
| "round_cmd _ = []"

text \<open>In a round, every connection visited has been written to once or was found broken.\<close>

definition round_inv :: "HydraWSServer \<Rightarrow> bool" where
  "round_inv s \<longleftrightarrow> (in_round (broadcaster s) \<longrightarrow>
     distinct (visited (broadcaster s)) \<and> distinct (delivered s) \<and>
     set (delivered s) \<subseteq> set (visited (broadcaster s)) \<and>
     set (visited (broadcaster s)) \<subseteq> set (delivered s) \<union> sock_closed s \<and>
     (\<exists>before. written s = before @ map (\<lambda>c. (c, round_cmd (broadcaster s))) (delivered s)))"

section \<open>Every step keeps them\<close>

lemmas srv_defs = set_handler_def register_conn_def unregister_conn_def handle_frame_def
  cast_write_ok_def cast_write_err_def cast_drop_def Close_cancel_def Let_def

lemma deliver_cases:
  assumes "deliver c ev s = Some s'"
  obtains (sent) ch where "chan_send (Recv s) ev = Sent ch"
      "s' = set_handler c Reading (s\<lparr>Recv := ch, accepted := accepted s @ [(c, ev)]\<rparr>)"
    | (panic) "ch_closed (Recv s)" "s' = set_handler c Leaving (s\<lparr>panics := panics s @ [c]\<rparr>)"
  using assms by (auto simp: deliver_def chan_send_Panics split: sent.splits)

lemma consume_cases:
  assumes "consume s = Some s'"
  obtains ev ch where "chan_recv (Recv s) = Received ev ch"
    "s' = s\<lparr>Recv := ch, consumed := consumed s @ [ev], printed := printed s @ [fst (ToJSON_be ev)]\<rparr>"
proof -
  from assms obtain ev ch where r: "chan_recv (Recv s) = Received ev ch"
    by (auto simp: consume_def split: received.splits)
  have "ToJSON_be ev = (fst (ToJSON_be ev), None)"
    using read_ToJSON_be(1) [of ev] by (simp add: prod_eq_iff)
  from this [THEN arg_cong, of "\<lambda>x. case x of (js, None) \<Rightarrow> printed s @ [js] | (js, Some err) \<Rightarrow> printed s"] assms r
  show ?thesis by (intro that [OF r]) (simp add: consume_def)
qed

lemma main_command_cases:
  assumes "main_command s = Some s'"
  obtains ch where "s' = s\<lparr>SendText := ch\<rparr>"
  using assms by (auto simp: main_command_def split: sent.splits)

lemma Close_recv_cases:
  obtains ch where "Close_recv s = s\<lparr>Recv := ch, closing := False\<rparr>"
      "ch = Recv s\<lparr>ch_closed := True\<rparr>" "\<not> ch_closed (Recv s)"
    | "Close_recv s = s\<lparr>crashed := True\<rparr>" "ch_closed (Recv s)"
  by (cases "ch_closed (Recv s)") (auto simp: Close_recv_def chan_close_def)

lemma live_simps [simp]:
  "live Reading" "live (Sending ev)" "live Leaving" "\<not> live Gone" "\<not> live NoConn" "\<not> live Upgraded"
  by (simp_all add: live_def)

text \<open>An invariant of the four groups of steps is one of the server.\<close>

lemma srv_step_inv:
  assumes "srv_step s s'" and "I s"
    and "\<And>c s s'. handleWS_step c s s' \<Longrightarrow> I s \<Longrightarrow> I s'" and "\<And>s s'. Start_step s s' \<Longrightarrow> I s \<Longrightarrow> I s'"
    and "\<And>s s'. Server_Close_step s s' \<Longrightarrow> I s \<Longrightarrow> I s'" and "\<And>s s'. main_step s s' \<Longrightarrow> I s \<Longrightarrow> I s'"
  shows "I s'"
  using assms by (auto elim!: srv_step.cases)

lemma conns_inv_handleWS: "handleWS_step c s s' \<Longrightarrow> conns_inv s \<Longrightarrow> conns_inv s'"
proof (induction rule: handleWS_step.induct)
  case (send s c ev s')
  then show ?case by (elim deliver_cases) (auto simp: conns_inv_def srv_defs)
qed (fastforce simp: conns_inv_def srv_defs read_locked_def split: option.splits)+

lemma conns_inv_Start: "Start_step s s' \<Longrightarrow> conns_inv s \<Longrightarrow> conns_inv s'"
  by (induction rule: Start_step.induct) (fastforce simp: conns_inv_def srv_defs)+

lemma conns_inv_Close: "Server_Close_step s s' \<Longrightarrow> conns_inv s \<Longrightarrow> conns_inv s'"
proof (induction rule: Server_Close_step.induct)
  case (close_recv s)
  then show ?case by (cases s rule: Close_recv_cases) (auto simp: conns_inv_def)
qed (auto simp: conns_inv_def srv_defs)

lemma conns_inv_main: "main_step s s' \<Longrightarrow> conns_inv s \<Longrightarrow> conns_inv s'"
  by (induction rule: main_step.induct)
    (auto simp: conns_inv_def elim!: consume_cases main_command_cases)

lemma queue_inv_handleWS: "handleWS_step c s s' \<Longrightarrow> queue_inv s \<Longrightarrow> queue_inv s'"
proof (induction rule: handleWS_step.induct)
  case (send s c ev s')
  from send.hyps(2) show ?case
  proof (cases rule: deliver_cases)
    case (sent ch)
    with send.prems show ?thesis
      using chan_sent_journal [OF _ sent(1), of "map snd (accepted s)" "consumed s"]
        chan_sent_ok [OF _ sent(1)] chan_closed_same(1) [OF sent(1)]
      by (simp add: queue_inv_def srv_defs)
  next
    case panic
    with send.prems show ?thesis by (simp add: queue_inv_def srv_defs)
  qed
qed (auto simp: queue_inv_def srv_defs split: option.splits)

lemma queue_inv_Start: "Start_step s s' \<Longrightarrow> queue_inv s \<Longrightarrow> queue_inv s'"
  by (induction rule: Start_step.induct) (auto simp: queue_inv_def srv_defs)

lemma queue_inv_Close: "Server_Close_step s s' \<Longrightarrow> queue_inv s \<Longrightarrow> queue_inv s'"
proof (induction rule: Server_Close_step.induct)
  case (close_recv s)
  then show ?case by (cases s rule: Close_recv_cases) (auto simp: queue_inv_def wf_chan_def)
qed (auto simp: queue_inv_def srv_defs)

lemma queue_inv_main: "main_step s s' \<Longrightarrow> queue_inv s \<Longrightarrow> queue_inv s'"
proof (induction rule: main_step.induct)
  case (consumer s s')
  from consumer.hyps obtain ev ch where c: "chan_recv (Recv s) = Received ev ch"
      "s' = s\<lparr>Recv := ch, consumed := consumed s @ [ev], printed := printed s @ [fst (ToJSON_be ev)]\<rparr>"
    by (rule consume_cases)
  with consumer.prems show ?case
    using chan_received_journal [OF _ c(1), of "map snd (accepted s)" "consumed s"]
      chan_received_ok [OF _ c(1)] chan_closed_same(2) [OF c(1)]
    by (simp add: queue_inv_def)
qed (auto simp: queue_inv_def elim!: main_command_cases)

lemma frame_events_snoc:
  "frames s' = frames s @ [(c', mt, msg)] \<Longrightarrow>
     frame_events c s' = frame_events c s @ (if c' = c then
       (case frame_event mt msg of None \<Rightarrow> [] | Some ev \<Rightarrow> [ev]) else [])"
  by (auto simp: frame_events_def List.map_filter_def split: option.splits)

lemma frame_events_same: "frames s' = frames s \<Longrightarrow> frame_events c s' = frame_events c s"
  by (simp add: frame_events_def)

lemma accepted_from_snoc:
  "accepted s' = accepted s @ [(c', ev)] \<Longrightarrow>
     accepted_from c s' = accepted_from c s @ (if c' = c then [ev] else [])"
  by (simp add: accepted_from_def)

lemma accepted_from_same: "accepted s' = accepted s \<Longrightarrow> accepted_from c s' = accepted_from c s"
  by (simp add: accepted_from_def)

lemma pending_simps [simp]:
  "pending Reading = []" "pending (Sending ev) = [ev]" "pending Leaving = []" "pending Gone = []"
  "pending NoConn = []" "pending Upgraded = []"
  by (simp_all add: pending_def)

text \<open>A step that leaves the history, the handlers and the context alone.\<close>

lemma order_inv_frame:
  assumes "order_inv s" and "frames s' = frames s" and "accepted s' = accepted s"
    and "handlers s' = handlers s" and "ctx_done s \<longrightarrow> ctx_done s'"
  shows "order_inv s'"
  using assms by (auto simp: order_inv_def frame_events_same [OF assms(2)] accepted_from_same [OF assms(3)])

text \<open>A step that moves one handler between places where no event is pending.\<close>

lemma order_inv_move:
  assumes "order_inv s" and "frames s' = frames s" and "accepted s' = accepted s"
    and "handlers s' = (handlers s)(c := pc)" and "ctx_done s' = ctx_done s"
    and "pending (handlers s c) = []" "pending pc = []"
    and "handlers s c = Leaving \<longrightarrow> pc = Gone" "handlers s c \<noteq> Gone"
  shows "order_inv s'"
  unfolding order_inv_def
proof
  fix c'
  show "frame_events c' s' = accepted_from c' s' @ pending (handlers s' c') \<or>
      ctx_done s' \<and> (handlers s' c' = Leaving \<or> handlers s' c' = Gone) \<and>
      (\<exists>ev. frame_events c' s' = accepted_from c' s' @ [ev])"
    using assms(1) [unfolded order_inv_def, rule_format, of c'] assms(4-)
    by (cases "c' = c")
      (auto simp: frame_events_same [OF assms(2)] accepted_from_same [OF assms(3)])
qed

text \<open>A handler that gives up the event it holds, which happens only after the context is done.\<close>

lemma order_inv_abandon:
  assumes "order_inv s" and "frames s' = frames s" and "accepted s' = accepted s"
    and "handlers s' = (handlers s)(c := Leaving)" and "ctx_done s'" "ctx_done s"
    and "handlers s c = Sending ev"
  shows "order_inv s'"
  unfolding order_inv_def
proof
  fix c'
  show "frame_events c' s' = accepted_from c' s' @ pending (handlers s' c') \<or>
      ctx_done s' \<and> (handlers s' c' = Leaving \<or> handlers s' c' = Gone) \<and>
      (\<exists>ev. frame_events c' s' = accepted_from c' s' @ [ev])"
    using assms(1) [unfolded order_inv_def, rule_format, of c'] assms(4-)
    by (cases "c' = c")
      (auto simp: frame_events_same [OF assms(2)] accepted_from_same [OF assms(3)])
qed

lemma order_inv_handleWS:
  "handleWS_step c s s' \<Longrightarrow> queue_inv s \<Longrightarrow> order_inv s \<Longrightarrow> order_inv s'"
proof (induction rule: handleWS_step.induct)
  case (upgrade s c)
  then show ?case
    by - (rule order_inv_move [of s _ c Upgraded], auto simp: srv_defs)
next
  case (register s c)
  then show ?case
    by - (rule order_inv_move [of s _ c Reading], auto simp: srv_defs)
next
  case (read s c mt msg)
  let ?s' = "handle_frame c mt msg s"
  have fr: "frames ?s' = frames s @ [(c, mt, msg)]" and ac: "accepted ?s' = accepted s"
    by (auto simp: srv_defs split: option.splits)
  show ?case
    unfolding order_inv_def
  proof
    fix c'
    from read.prems(2) [unfolded order_inv_def, rule_format, of c']
    show "frame_events c' ?s' = accepted_from c' ?s' @ pending (handlers ?s' c') \<or>
        ctx_done ?s' \<and> (handlers ?s' c' = Leaving \<or> handlers ?s' c' = Gone) \<and>
        (\<exists>ev. frame_events c' ?s' = accepted_from c' ?s' @ [ev])"
      using read.hyps
      by (cases "c' = c")
        (auto simp: frame_events_snoc [OF fr] accepted_from_same [OF ac],
         auto simp: srv_defs split: option.splits)
  qed
next
  case (read_error s c)
  then show ?case
    by - (rule order_inv_move [of s _ c Leaving], auto simp: srv_defs)
next
  case (send s c ev s')
  from send.hyps(2) show ?case
  proof (cases rule: deliver_cases)
    case (sent ch)
    have fr: "frames s' = frames s" and ac: "accepted s' = accepted s @ [(c, ev)]"
      and h: "handlers s' = (handlers s)(c := Reading)" and d: "ctx_done s' = ctx_done s"
      using sent by (simp_all add: srv_defs)
    show ?thesis
      unfolding order_inv_def
    proof
      fix c'
      from send.prems(2) [unfolded order_inv_def, rule_format, of c']
      show "frame_events c' s' = accepted_from c' s' @ pending (handlers s' c') \<or>
          ctx_done s' \<and> (handlers s' c' = Leaving \<or> handlers s' c' = Gone) \<and>
          (\<exists>ev. frame_events c' s' = accepted_from c' s' @ [ev])"
        using send.hyps h d
        by (cases "c' = c") (auto simp: frame_events_same [OF fr] accepted_from_snoc [OF ac])
    qed
  next
    case panic
    with send.prems send.hyps show ?thesis
      by - (rule order_inv_abandon [of s _ c ev], auto simp: srv_defs queue_inv_def)
  qed
next
  case (send_done s c ev)
  then show ?case
    by - (rule order_inv_abandon [of s _ c ev], auto simp: srv_defs)
next
  case (unregister s c)
  then show ?case
    by - (rule order_inv_move [of s _ c Gone], auto simp: srv_defs)
qed

lemma order_inv_Start: "Start_step s s' \<Longrightarrow> order_inv s \<Longrightarrow> order_inv s'"
  by (induction rule: Start_step.induct) (rule order_inv_frame, assumption, simp_all add: srv_defs)+

lemma order_inv_Close: "Server_Close_step s s' \<Longrightarrow> order_inv s \<Longrightarrow> order_inv s'"
proof (induction rule: Server_Close_step.induct)
  case (close_recv s)
  then show ?case
    by (cases s rule: Close_recv_cases) (rule order_inv_frame, assumption, simp_all)+
qed (rule order_inv_frame, assumption, simp_all add: srv_defs)

lemma order_inv_main: "main_step s s' \<Longrightarrow> order_inv s \<Longrightarrow> order_inv s'"
  by (induction rule: main_step.induct)
    (elim consume_cases main_command_cases, rule order_inv_frame, assumption, simp_all)+

lemma srv_invs_init:
  "conns_inv (NewHydraWSServer a p n)" "queue_inv (NewHydraWSServer a p n)"
  "order_inv (NewHydraWSServer a p n)"
  by (simp_all add: conns_inv_def queue_inv_def order_inv_def NewHydraWSServer_def frame_events_def
      accepted_from_def List.map_filter_def)

lemmas conns_inv_steps = conns_inv_handleWS conns_inv_Start conns_inv_Close conns_inv_main
lemmas queue_inv_steps = queue_inv_handleWS queue_inv_Start queue_inv_Close queue_inv_main
lemmas order_inv_steps = order_inv_handleWS order_inv_Start order_inv_Close order_inv_main

interpretation srv: transition_system srv_step srv_reachable
proof
  fix s t P
  assume r: "srv_reachable s t" "P s" and st: "\<And>t u. srv_reachable s t \<Longrightarrow> P t \<Longrightarrow> srv_step t u \<Longrightarrow> P u"
  from r show "P t" by (induction rule: srv_reachable.induct) (auto intro: st)
qed (auto intro: srv_reachable.intros)

lemmas srv_reachable_inv = srv.reach_invariant

lemma srv_reachable_invs:
  assumes "srv_reachable (NewHydraWSServer a p n) s"
  shows "conns_inv s" and "queue_inv s" and "order_inv s"
proof -
  show "conns_inv s" using assms srv_invs_init(1)
    by (rule srv_reachable_inv) (erule srv_step_inv, assumption, (erule (1) conns_inv_steps)+)
  show "queue_inv s" using assms srv_invs_init(2)
    by (rule srv_reachable_inv) (erule srv_step_inv, assumption, (erule (1) queue_inv_steps)+)
  let ?I = "\<lambda>s. queue_inv s \<and> order_inv s"
  have "?I s'" if "srv_step s s'" "?I s" for s s'
    by (rule srv_step_inv [where I = ?I, OF that])
      (auto intro: queue_inv_steps order_inv_steps)
  then have "?I s"
    using srv_reachable_inv [where I = ?I, OF assms] srv_invs_init(2,3) by blast
  then show "order_inv s" ..
qed

lemma in_round_simps [simp]:
  "\<not> in_round CastSelect" "\<not> in_round CastReturned" "in_round (CastLoop cmd must seen)"
  "in_round (CastDrop cmd must seen c)" "in_round (CastRelock cmd must seen)"
  by (simp_all add: in_round_def)

lemma round_inv_handleWS: "handleWS_step c s s' \<Longrightarrow> round_inv s \<Longrightarrow> round_inv s'"
proof (induction rule: handleWS_step.induct)
  case (send s c ev s')
  then show ?case by (elim deliver_cases) (auto simp: round_inv_def srv_defs)
qed (fastforce simp: round_inv_def srv_defs split: option.splits)+

lemma round_inv_Start: "Start_step s s' \<Longrightarrow> round_inv s \<Longrightarrow> round_inv s'"
  by (induction rule: Start_step.induct) (fastforce simp: round_inv_def srv_defs)+

lemma round_inv_Close: "Server_Close_step s s' \<Longrightarrow> round_inv s \<Longrightarrow> round_inv s'"
proof (induction rule: Server_Close_step.induct)
  case (close_recv s)
  then show ?case by (cases s rule: Close_recv_cases) (auto simp: round_inv_def)
qed (auto simp: round_inv_def srv_defs)

lemma round_inv_main: "main_step s s' \<Longrightarrow> round_inv s \<Longrightarrow> round_inv s'"
  by (induction rule: main_step.induct)
    (auto simp: round_inv_def elim!: consume_cases main_command_cases)

lemmas round_inv_steps = round_inv_handleWS round_inv_Start round_inv_Close round_inv_main

lemma srv_reachable_round:
  assumes "srv_reachable (NewHydraWSServer a p n) s"
  shows "round_inv s"
proof -
  have "round_inv (NewHydraWSServer a p n)"
    by (simp add: round_inv_def NewHydraWSServer_def)
  with assms show ?thesis
    by (rule srv_reachable_inv) (erule srv_step_inv, assumption, (erule (1) round_inv_steps)+)
qed

text \<open>A panic needs a closed \<open>Recv\<close>, and one is reached: a handler is in its select with an event
  when \<open>Close\<close> runs to its end.\<close>

lemma srv_panic_reachable:
  "\<exists>s. srv_reachable (NewHydraWSServer a p (Suc n)) s \<and> panics s = [0]"
proof -
  define msg where "msg = evToBytes (0, 0) zero_ACEvent"
  have fe: "frame_event BinaryMessage msg = Some (to_backend zero_ACEvent)"
    by (simp add: frame_event_def msg_def)
  define s0 where "s0 = NewHydraWSServer a p (Suc n)"
  define s1 where "s1 = set_handler 0 Upgraded s0"
  define s2 where "s2 = register_conn 0 s1"
  define s3 where "s3 = handle_frame 0 BinaryMessage msg s2"
  define s4 where "s4 = Close_cancel s3"
  define s5 where "s5 = Close_recv s4"
  define s6 where "s6 = set_handler 0 Leaving (s5\<lparr>panics := panics s5 @ [0]\<rparr>)"
  note ss = s0_def s1_def s2_def s3_def s4_def s5_def s6_def
  have h1: "handleWS_step 0 s0 s1" unfolding s1_def
    by (rule upgrade) (simp add: s0_def NewHydraWSServer_def)
  have h2: "handleWS_step 0 s1 s2" unfolding s2_def
    by (rule register) (simp_all add: ss NewHydraWSServer_def srv_defs read_locked_def)
  have h3: "handleWS_step 0 s2 s3" unfolding s3_def
    by (rule read) (simp add: ss NewHydraWSServer_def srv_defs)
  have h4: "Server_Close_step s3 s4" unfolding s4_def
    by (rule close_cancel) (simp add: ss NewHydraWSServer_def srv_defs fe)
  have h5: "Server_Close_step s4 s5" unfolding s5_def
    by (rule close_recv) (simp add: ss NewHydraWSServer_def srv_defs fe)
  have h6: "handleWS_step 0 s5 s6"
    by (rule send [of s5 0 "to_backend zero_ACEvent"])
      (simp_all add: ss NewHydraWSServer_def srv_defs fe Close_recv_def chan_close_def deliver_def
        chan_send_def)
  have alive: "\<not> crashed s0" "\<not> crashed s1" "\<not> crashed s2" "\<not> crashed s3" "\<not> crashed s4"
      "\<not> crashed s5"
    by (simp_all add: ss NewHydraWSServer_def srv_defs fe Close_recv_def chan_close_def)
  have "srv_reachable s0 s6"
    using srv_start [of s0] h1 h2 h3 h4 h5 h6 alive by (meson srv_more srv_step.intros)
  moreover have "panics s6 = [0]"
    by (simp add: ss NewHydraWSServer_def srv_defs fe Close_recv_def chan_close_def)
  ultimately show ?thesis unfolding s0_def by blast
qed

section \<open>Properties\<close>

text \<open>A state with an open connection and one event in the queue, for the concrete instances.\<close>

lemma srv_one_event:
  "\<exists>s. srv_reachable main_server s \<and> 0 \<in> conns s \<and> accepted_from 0 s = [to_backend zero_ACEvent] \<and>
    ch_buf (Recv s) = [to_backend zero_ACEvent] \<and> \<not> crashed s \<and>
    frames s = [(0, BinaryMessage, evToBytes (0, 0) zero_ACEvent)]"
proof -
  define msg where "msg = evToBytes (0, 0) zero_ACEvent"
  have fe: "frame_event BinaryMessage msg = Some (to_backend zero_ACEvent)"
    by (simp add: frame_event_def msg_def)
  define s1 where "s1 = set_handler 0 Upgraded main_server"
  define s2 where "s2 = register_conn 0 s1"
  define s3 where "s3 = handle_frame 0 BinaryMessage msg s2"
  define s4 where "s4 = set_handler 0 Reading (s3\<lparr>Recv := (Recv s3)\<lparr>ch_buf := [to_backend zero_ACEvent]\<rparr>,
    accepted := [(0, to_backend zero_ACEvent)]\<rparr>)"
  note ss = s1_def s2_def s3_def main_server_def NewHydraWSServer_def srv_defs make_chan_def
  have "srv_step main_server s1" unfolding s1_def
    by (rule srv_step.intros(1) [OF _ upgrade]) (simp_all add: ss)
  moreover have "srv_step s1 s2" unfolding s2_def
    by (rule srv_step.intros(1) [OF _ register]) (simp_all add: ss read_locked_def)
  moreover have "srv_step s2 s3" unfolding s3_def
    by (rule srv_step.intros(1) [OF _ read]) (simp_all add: ss)
  moreover have "srv_step s3 s4" unfolding s4_def
    by (rule srv_step.intros(1) [OF _ send [of s3 0 "to_backend zero_ACEvent"]])
      (simp_all add: ss fe deliver_def chan_send_def)
  ultimately have "srv_reachable main_server s4"
    by (meson srv_start srv_more)
  then show ?thesis
    by (intro exI [of _ s4]) (simp add: s4_def ss fe accepted_from_def flip: msg_def)
qed

lemma srv_one_event_any:
  "\<exists>s. srv_reachable (NewHydraWSServer ''0.0.0.0:8080'' ''/'' 1024) s \<and> 0 \<in> conns s \<and>
    accepted_from 0 s = [to_backend zero_ACEvent] \<and> ch_buf (Recv s) = [to_backend zero_ACEvent]"
  using srv_one_event by (auto simp: main_server_def)

text \<open>C11. In every state the server can reach, the events taken from the
  connections are exactly the events the consumer has received followed by those still queued, in
  the order they were accepted; every received event was printed, as its JSON, and the queue never
  holds more than its capacity.\<close>

theorem printed_in_order:
  assumes "srv_reachable (NewHydraWSServer addr path buf) s"
  shows "map snd (accepted s) = consumed s @ ch_buf (Recv s) \<and>
    printed s = map (\<lambda>ev. fst (ToJSON_be ev)) (consumed s) \<and>
    length (ch_buf (Recv s)) \<le> ch_cap (Recv s)"
  using srv_reachable_invs(2) [OF assms] by (simp add: queue_inv_def wf_chan_def)

theorem printed_in_order_witness:
  "\<exists>s :: HydraWSServer. ch_buf (Recv s) = [to_backend zero_ACEvent] \<and> map snd (accepted s) = consumed s @ ch_buf (Recv s)"
  using srv_one_event_any printed_in_order by blast

text \<open>C12. What was accepted from a connection is, in order, what its binary
  frames of the right size decode to: all of them, but for the last while the handler is still
  sending it, or when the server was being shut down while the handler held it.\<close>

theorem connection_events_in_order:
  assumes "srv_reachable (NewHydraWSServer addr path buf) s"
  shows "frame_events c s = accepted_from c s \<or>
    (\<exists>ev. frame_events c s = accepted_from c s @ [ev] \<and> (handlers s c = Sending ev \<or> ctx_done s))"
  using srv_reachable_invs(3) [OF assms, unfolded order_inv_def, rule_format, of c]
  by (auto simp: pending_def split: handler.splits)

theorem connection_events_in_order_witness:
  "\<exists>s :: HydraWSServer. accepted_from 0 s = [to_backend zero_ACEvent] \<and>
    (frame_events 0 s = accepted_from 0 s \<or>
     (\<exists>ev. frame_events 0 s = accepted_from 0 s @ [ev] \<and> (handlers s 0 = Sending ev \<or> ctx_done s)))"
  using srv_one_event_any connection_events_in_order by blast

text \<open>The set of connections holds only connections whose handler is running, so a
  command is never written for a handler that has returned; one whose socket is closed is in the
  set only in the moment before the broadcaster deletes it.\<close>

lemma conns_are_live:
  assumes "srv_reachable (NewHydraWSServer addr path buf) s" and "c \<in> conns s"
  shows "handlers s c \<in> {Reading, Leaving} \<union> range Sending \<and>
    (c \<in> sock_closed s \<longrightarrow> (\<exists>cmd must seen. broadcaster s = CastDrop cmd must seen c))"
proof -
  have "live (handlers s c)" and "c \<in> sock_closed s \<longrightarrow> (\<exists>cmd must seen. broadcaster s = CastDrop cmd must seen c)"
    using srv_reachable_invs(1) [OF assms(1)] assms(2) by (auto simp: conns_inv_def)
  then show ?thesis by (cases "handlers s c") auto
qed

text \<open>C13. When the loop over the connections can end, every connection that was there
  when it began and still is has been sent the command exactly once in this round, by a write
  that succeeded; the history of writes ends with the writes of the round.\<close>

theorem broadcast_once:
  assumes "srv_reachable (NewHydraWSServer addr path buf) s"
    and "broadcaster s = CastLoop cmd must seen" and "must \<inter> conns s \<subseteq> set seen"
    and "c \<in> must" "c \<in> conns s"
  shows "count_list (delivered s) c = 1 \<and>
    (\<exists>before. written s = before @ map (\<lambda>c. (c, cmd)) (delivered s))"
proof -
  have "c \<in> set seen" using assms(3-5) by blast
  moreover have "c \<notin> sock_closed s"
    using srv_reachable_invs(1) [OF assms(1)] assms(2,5) by (auto simp: conns_inv_def)
  ultimately have "c \<in> set (delivered s)" "distinct (delivered s)"
      "\<exists>before. written s = before @ map (\<lambda>c. (c, cmd)) (delivered s)"
    using srv_reachable_round [OF assms(1)] assms(2) by (auto simp: round_inv_def)
  then show ?thesis by (simp add: count_list_distinct)
qed

text \<open>A round with one connection.\<close>

lemma srv_one_round:
  "\<exists>s. srv_reachable (NewHydraWSServer ''a'' ''/'' 1) s \<and> broadcaster s = CastLoop ''scanDLL'' {0} [0] \<and>
    conns s = {0} \<and> delivered s = [0] \<and> \<not> crashed s"
proof -
  define s0 where "s0 = NewHydraWSServer ''a'' ''/'' 1"
  define s1 where "s1 = set_handler 0 Upgraded s0"
  define s2 where "s2 = register_conn 0 s1"
  define s3 where "s3 = s2\<lparr>SendText := (SendText s2)\<lparr>ch_buf := [''scanDLL'']\<rparr>\<rparr>"
  define s4 where "s4 = s3\<lparr>SendText := (SendText s3)\<lparr>ch_buf := []\<rparr>,
    broadcaster := CastLoop ''scanDLL'' (conns s3) [], delivered := []\<rparr>"
  define s5 where "s5 = cast_write_ok ''scanDLL'' {0} [] 0 s4"
  note ss = s0_def s1_def s2_def s3_def s4_def NewHydraWSServer_def srv_defs make_chan_def
  have "srv_step s0 s1" unfolding s1_def
    by (rule srv_step.intros(1) [OF _ upgrade]) (simp_all add: ss)
  moreover have "srv_step s1 s2" unfolding s2_def
    by (rule srv_step.intros(1) [OF _ register]) (simp_all add: ss read_locked_def)
  moreover have "srv_step s2 s3" unfolding s3_def
    by (rule srv_step.intros(4) [OF _ command]) (simp_all add: ss main_command_def chan_send_def)
  moreover have "srv_step s3 s4" unfolding s4_def
    by (rule srv_step.intros(2) [OF _ cast_begin]) (simp_all add: ss chan_recv_def)
  moreover have "srv_step s4 s5" unfolding s5_def
    by (rule srv_step.intros(2) [OF _ cast_ok]) (simp_all add: ss)
  ultimately have "srv_reachable s0 s5"
    by (meson srv_start srv_more)
  then show ?thesis
    by (intro exI [of _ s5]) (simp add: s5_def ss)
qed

theorem broadcast_once_witness:
  "\<exists>s :: HydraWSServer. broadcaster s = CastLoop ''scanDLL'' {0} [0] \<and> count_list (delivered s) 0 = 1"
proof -
  obtain s where s: "srv_reachable (NewHydraWSServer ''a'' ''/'' 1) s"
      "broadcaster s = CastLoop ''scanDLL'' {0} [0]" "conns s = {0}"
    using srv_one_round by blast
  from broadcast_once [OF s(1,2), of 0] s(2,3) show ?thesis by (intro exI [of _ s]) simp
qed

text \<open>C38. A handler panics, and the process crashes, only after \<open>Close\<close> has closed
  \<open>Recv\<close>, and \<open>Recv\<close> is closed only with the context cancelled.\<close>

theorem panics_need_Close:
  assumes "srv_reachable (NewHydraWSServer addr path buf) s"
  shows "(crashed s \<or> panics s \<noteq> [] \<longrightarrow> ch_closed (Recv s)) \<and> (ch_closed (Recv s) \<longrightarrow> ctx_done s)"
  using srv_reachable_invs(2) [OF assms] by (simp add: queue_inv_def)

theorem panics_need_Close_witness:
  "\<exists>s :: HydraWSServer. panics s = [0] \<and> ch_closed (Recv s) \<and> ctx_done s"
proof -
  obtain s where s: "srv_reachable (NewHydraWSServer ''a'' ''/'' (Suc 0)) s" "panics s = [0]"
    using srv_panic_reachable by blast
  from panics_need_Close [OF s(1)] s(2) show ?thesis by (intro exI [of _ s]) simp
qed

text \<open>C39. And it does happen: \<open>Close\<close> does not wait for the handlers of open
  WebSocket connections, so a handler that is about to send an event when \<open>Recv\<close> is closed sends on
  a closed channel, whatever the address, the path and the capacity (other than zero) of the queue.\<close>

theorem Close_races_with_handlers:
  "\<exists>s. srv_reachable (NewHydraWSServer addr path (Suc buf)) s \<and> panics s = [0]"
  by (rule srv_panic_reachable)

end
