(* ===== verification/Backend_Spec.thy ===== *)
theory Backend_Spec
  imports Backend_Server
begin

text \<open>
  What the backend promises, as a machine without handlers, locks or broadcasts: it holds at most one
  event of each connection, merges them into one bounded line, and prints the line in order. The
  server of \<open>Backend_Server\<close> implements it (the locale \<open>simulation\<close>). And that the broadcaster's
  rounds end (the locale \<open>ranked_steps\<close>).
\<close>

section \<open>The abstract merger\<close>

record merger =
  capacity :: nat
  held :: "conn \<Rightarrow> ACEvent_be option"
  line :: "ACEvent_be list"
  log_lines :: "string list"
  stopping :: bool
  stopped :: bool

definition new_merger :: "nat \<Rightarrow> merger" where
  "new_merger n = \<lparr>capacity = n, held = (\<lambda>_. None), line = [], log_lines = [], stopping = False, stopped = False\<rparr>"

inductive merger_step :: "merger \<Rightarrow> merger \<Rightarrow> bool" where
  take_in: "held m c = None \<Longrightarrow> merger_step m (m\<lparr>held := (held m)(c := Some ev)\<rparr>)"
| line_up: "held m c = Some ev \<Longrightarrow> \<not> stopped m \<Longrightarrow> length (line m) < capacity m \<Longrightarrow>
    merger_step m (m\<lparr>held := (held m)(c := None), line := line m @ [ev]\<rparr>)"
| discard: "held m c = Some ev \<Longrightarrow> stopping m \<Longrightarrow> merger_step m (m\<lparr>held := (held m)(c := None)\<rparr>)"
| print_out: "line m = ev # evs \<Longrightarrow>
    merger_step m (m\<lparr>line := evs, log_lines := log_lines m @ [fst (ToJSON_be ev)]\<rparr>)"
| begin_stop: "merger_step m (m\<lparr>stopping := True\<rparr>)"
| stop: "stopping m \<Longrightarrow> \<not> stopped m \<Longrightarrow> merger_step m (m\<lparr>stopped := True\<rparr>)"

text \<open>After the stop the line only runs out.\<close>

lemma stopped_merger:
  "merger_step\<^sup>*\<^sup>* m m' \<Longrightarrow> stopped m \<Longrightarrow>
     stopped m' \<and> log_lines m' @ map (\<lambda>ev. fst (ToJSON_be ev)) (line m') =
       log_lines m @ map (\<lambda>ev. fst (ToJSON_be ev)) (line m)"
  by (induction rule: rtranclp_induct) (auto elim!: merger_step.cases)

section \<open>The server implements it\<close>

definition holds :: "handler \<Rightarrow> ACEvent_be option" where
  "holds pc = (case pc of Sending ev \<Rightarrow> Some ev | _ \<Rightarrow> None)"

definition merger_of :: "HydraWSServer \<Rightarrow> merger" where
  "merger_of s = \<lparr>capacity = ch_cap (Recv s), held = (\<lambda>c. holds (handlers s c)), line = ch_buf (Recv s),
     log_lines = printed s, stopping = ctx_done s, stopped = ch_closed (Recv s)\<rparr>"

lemma holds_simps [simp]:
  "holds (Sending ev) = Some ev" "holds Reading = None" "holds Leaving = None" "holds Gone = None"
  "holds NoConn = None" "holds Upgraded = None"
  by (simp_all add: holds_def)

definition merges :: "HydraWSServer \<Rightarrow> HydraWSServer \<Rightarrow> bool" where
  "merges s s' \<longleftrightarrow> merger_of s' = merger_of s \<or> merger_step (merger_of s) (merger_of s')"

lemma merges_quiet:
  assumes "Recv s' = Recv s" and "printed s' = printed s" and "ctx_done s' = ctx_done s"
    and "\<And>c. holds (handlers s' c) = holds (handlers s c)"
  shows "merges s s'"
  using assms by (simp add: merges_def merger_of_def)

lemma merges_handler:
  assumes "handleWS_step c s s'" and "queue_inv s"
  shows "merges s s'"
  using assms(1)
proof (cases rule: handleWS_step.cases)
  case (read mt msg)
  show ?thesis
  proof (cases "frame_event mt msg")
    case (Some ev)
    have "merger_of s' = (merger_of s)\<lparr>held := (held (merger_of s))(c := Some ev)\<rparr>"
      using read Some by (simp add: merger_of_def srv_defs fun_eq_iff)
    moreover have "held (merger_of s) c = None" using read by (simp add: merger_of_def)
    ultimately show ?thesis using take_in [of "merger_of s" c ev] by (simp add: merges_def)
  qed (use read in \<open>auto intro!: merges_quiet simp: srv_defs\<close>)
next
  case (send ev)
  have h: "held (merger_of s) c = Some ev" using send by (simp add: merger_of_def)
  from send(2) show ?thesis
  proof (cases rule: deliver_cases)
    case (sent ch)
    then have "merger_of s' = (merger_of s)\<lparr>held := (held (merger_of s))(c := None), line := line (merger_of s) @ [ev]\<rparr>"
        "\<not> stopped (merger_of s)" "length (line (merger_of s)) < capacity (merger_of s)"
      by (simp_all add: merger_of_def srv_defs fun_eq_iff loop_simps)
    with line_up [OF h] show ?thesis by (simp add: merges_def)
  next
    case panic
    then have "merger_of s' = (merger_of s)\<lparr>held := (held (merger_of s))(c := None)\<rparr>" "stopping (merger_of s)"
      using assms(2) by (simp_all add: merger_of_def srv_defs fun_eq_iff queue_inv_def)
    with discard [OF h] show ?thesis by (simp add: merges_def)
  qed
next
  case (send_done ev)
  then have "merger_of s' = (merger_of s)\<lparr>held := (held (merger_of s))(c := None)\<rparr>" "stopping (merger_of s)"
      "held (merger_of s) c = Some ev"
    by (simp_all add: merger_of_def srv_defs fun_eq_iff)
  with discard [of "merger_of s" c ev] show ?thesis by (simp add: merges_def)
qed (auto intro!: merges_quiet simp: srv_defs)

lemma merges_Start:
  assumes "Start_step s s'"
  shows "merges s s'"
  using assms
proof (cases rule: Start_step.cases)
  case listen_error
  then have "merger_of s' = (merger_of s)\<lparr>stopping := True\<rparr>" by (simp add: merger_of_def)
  with begin_stop [of "merger_of s"] show ?thesis by (simp add: merges_def)
qed (auto intro!: merges_quiet simp: srv_defs)

lemma merges_Close:
  assumes "Server_Close_step s s'" and "queue_inv s"
  shows "merges s s'"
  using assms(1)
proof (cases rule: Server_Close_step.cases)
  case close_cancel
  then have "merger_of s' = (merger_of s)\<lparr>stopping := True\<rparr>" by (simp add: merger_of_def srv_defs)
  with begin_stop [of "merger_of s"] show ?thesis by (simp add: merges_def)
next
  case close_recv
  show ?thesis
  proof (cases s rule: Close_recv_cases)
    case (1 ch)
    have "stopping (merger_of s)" using close_recv assms(2) by (simp add: merger_of_def queue_inv_def)
    moreover have "merger_of s' = (merger_of s)\<lparr>stopped := True\<rparr>" "\<not> stopped (merger_of s)"
      using 1 close_recv by (simp_all add: merger_of_def)
    ultimately show ?thesis using stop [of "merger_of s"] by (simp add: merges_def)
  next
    case 2
    with close_recv show ?thesis by (auto intro!: merges_quiet)
  qed
qed

lemma merges_main:
  assumes "main_step s s'"
  shows "merges s s'"
  using assms
proof (cases rule: main_step.cases)
  case consumer
  then show ?thesis
  proof (cases rule: consume_cases)
    case (1 ev ch)
    then obtain evs where "ch_buf (Recv s) = ev # evs" "ch = (Recv s)\<lparr>ch_buf := evs\<rparr>" by (auto simp: loop_simps)
    with 1 have "merger_of s' = (merger_of s)\<lparr>line := evs, log_lines := log_lines (merger_of s) @ [fst (ToJSON_be ev)]\<rparr>"
        "line (merger_of s) = ev # evs"
      by (simp_all add: merger_of_def)
    with print_out show ?thesis by (simp add: merges_def)
  qed
next
  case command
  then show ?thesis by (cases rule: main_command_cases) (auto intro!: merges_quiet)
qed

interpretation merger: simulation srv_step srv_reachable merger_step merger_of queue_inv
proof
  fix s s' :: HydraWSServer
  assume st: "srv_step s s'" and i: "queue_inv s"
  show "queue_inv s'"
    using st i by (rule srv_step_inv) (erule (1) queue_inv_steps)+
  from st have "merges s s'"
    by cases (use i merges_handler merges_Start merges_Close merges_main in blast)+
  then show "merger_of s' = merger_of s \<or> merger_step (merger_of s) (merger_of s')"
    by (simp add: merges_def)
qed

section \<open>A broadcast round ends\<close>

definition round_rank :: "HydraWSServer \<Rightarrow> nat" where
  "round_rank s =
     (case broadcaster s of
        CastLoop cmd must seen \<Rightarrow> 3 * card (conns s - set seen) + 1
      | CastDrop cmd must seen c \<Rightarrow> 3 * card (conns s - set seen) + 3
      | CastRelock cmd must seen \<Rightarrow> 3 * card (conns s - set seen) + 2
      | _ \<Rightarrow> 0)"

text \<open>A step of the broadcaster inside its round; the map of connections is finite.\<close>

definition round_step :: "HydraWSServer \<Rightarrow> HydraWSServer \<Rightarrow> bool" where
  "round_step s s' \<longleftrightarrow> Start_step s s' \<and> in_round (broadcaster s) \<and> broadcaster s' \<noteq> broadcaster s \<and>
     finite (conns s) \<and> \<not> crashed s"

lemma card_visit:
  assumes "finite C" and "c \<in> C" and "c \<notin> set seen"
  shows "0 < card (C - set seen)"
  using assms by (auto simp: card_gt_0_iff)

interpretation cast: ranked_steps round_step round_rank
proof
  fix s s'
  assume "round_step s s'"
  then have f: "finite (conns s)" and n: "broadcaster s' \<noteq> broadcaster s" and i: "in_round (broadcaster s)"
    and st: "Start_step s s'"
    by (simp_all add: round_step_def)
  from st show "round_rank s' < round_rank s"
  proof (cases rule: Start_step.cases)
    case (cast_ok cmd must seen c)
    with card_visit [OF f, of c seen] show ?thesis by (simp add: round_rank_def srv_defs)
  next
    case (cast_err cmd must seen c)
    with card_visit [OF f, of c seen] show ?thesis by (simp add: round_rank_def srv_defs)
  next
    case (cast_dropped cmd must seen c)
    have "card (conns s - {c} - set seen) \<le> card (conns s - set seen)"
      by (rule card_mono) (use f in auto)
    with cast_dropped show ?thesis by (simp add: round_rank_def srv_defs)
  qed (use n i in \<open>auto simp: round_rank_def\<close>)
qed

lemma round_continues:
  assumes "in_round (broadcaster s)" and "finite (conns s)" and "\<not> crashed s"
  shows "\<exists>s'. round_step s s'"
proof (cases "broadcaster s")
  case (CastLoop cmd must seen)
  show ?thesis
  proof (cases "must \<inter> conns s \<subseteq> set seen")
    case True
    with CastLoop assms show ?thesis
      by (intro exI [of _ "s\<lparr>broadcaster := CastSelect\<rparr>"]) (simp add: round_step_def cast_end)
  next
    case False
    then obtain c where "c \<in> conns s" "c \<notin> set seen" by auto
    with CastLoop assms show ?thesis
      by (intro exI [of _ "cast_write_err cmd must seen c s"]) (auto simp: round_step_def srv_defs intro: cast_err [unfolded srv_defs])
  qed
next
  case (CastDrop cmd must seen c)
  with assms show ?thesis
    by (intro exI [of _ "cast_drop cmd must seen c s"])
      (auto simp: round_step_def srv_defs intro: cast_dropped [unfolded srv_defs])
next
  case (CastRelock cmd must seen)
  with assms show ?thesis
    by (intro exI [of _ "s\<lparr>broadcaster := CastLoop cmd must seen\<rparr>"]) (auto simp: round_step_def intro: cast_relock)
qed (use assms in auto)

lemma round_step_keeps:
  "round_step s s' \<Longrightarrow> finite (conns s') \<and> \<not> crashed s' \<and> (in_round (broadcaster s') \<or> broadcaster s' = CastSelect)"
  by (auto simp: round_step_def srv_defs elim!: Start_step.cases)

lemma round_steps_keep:
  assumes "round_step\<^sup>*\<^sup>* s s'" and "in_round (broadcaster s)" and "finite (conns s)" and "\<not> crashed s"
  shows "finite (conns s') \<and> \<not> crashed s' \<and> (in_round (broadcaster s') \<or> broadcaster s' = CastSelect)"
  using assms by (induction rule: rtranclp_induct) (auto dest: round_step_keeps)

text \<open>Only finitely many connections are in the map.\<close>

lemma finite_conns_step: "srv_step s s' \<Longrightarrow> finite (conns s) \<Longrightarrow> finite (conns s')"
proof (erule srv_step_inv)
  show "handleWS_step c s s' \<Longrightarrow> finite (conns s) \<Longrightarrow> finite (conns s')" for c s s'
    by (erule handleWS_step.cases) (auto simp: srv_defs split: option.splits elim!: deliver_cases)
  show "Start_step s s' \<Longrightarrow> finite (conns s) \<Longrightarrow> finite (conns s')" for s s'
    by (erule Start_step.cases) (auto simp: srv_defs)
  show "Server_Close_step s s' \<Longrightarrow> finite (conns s) \<Longrightarrow> finite (conns s')" for s s'
  proof (erule Server_Close_step.cases)
    fix sa assume "s = sa" "s' = Close_recv sa" "finite (conns s)"
    then show "finite (conns s')" by (cases sa rule: Close_recv_cases) auto
  qed (auto simp: srv_defs)
  show "main_step s s' \<Longrightarrow> finite (conns s) \<Longrightarrow> finite (conns s')" for s s'
    by (erule main_step.cases) (auto elim!: consume_cases main_command_cases)
qed

lemma finite_conns: "srv_reachable (NewHydraWSServer addr path buf) s \<Longrightarrow> finite (conns s)"
  by (erule srv.reach_invariant) (auto simp: NewHydraWSServer_def intro: finite_conns_step)

section \<open>Properties\<close>

text \<open>C8. The backend is a bounded merger of its connections' events: to every execution of its
  handlers, broadcaster, consumer and of \<open>Close\<close> corresponds an execution of the abstract machine,
  which holds at most one event per connection, lets no more than its capacity stand in line,
  discards an event only when it is being stopped, and prints the line in order.\<close>

theorem server_refines_merger:
  assumes "srv_reachable (NewHydraWSServer addr path buf) s"
  shows "merger_step\<^sup>*\<^sup>* (new_merger buf) (merger_of s)"
proof -
  have "merger_of (NewHydraWSServer addr path buf) = new_merger buf"
    by (simp add: merger_of_def new_merger_def NewHydraWSServer_def)
  with merger.run_simulates [OF assms srv_invs_init(2)] show ?thesis by simp
qed

theorem server_refines_merger_witness:
  "\<exists>s :: HydraWSServer. accepted_from 0 s = [to_backend zero_ACEvent] \<and>
     merger_step\<^sup>*\<^sup>* (new_merger 1024) (merger_of s)"
proof -
  obtain s where s: "srv_reachable (NewHydraWSServer ''0.0.0.0:8080'' ''/'' 1024) s"
      "accepted_from 0 s = [to_backend zero_ACEvent]"
    using srv_one_event by (auto simp: main_server_def)
  from server_refines_merger [OF s(1)] s(2) show ?thesis by blast
qed

text \<open>C14. A broadcast round ends: however it has begun, the broadcaster can always go on inside
  it; left alone it takes at most three steps per connection still to be visited and three more; and
  wherever it stops, it is back in its select.\<close>

theorem broadcast_round_ends:
  assumes "srv_reachable (NewHydraWSServer addr path buf) s" and "in_round (broadcaster s)"
    and "\<not> crashed s"
  shows "(\<exists>s'. round_step s s') \<and>
    (\<forall>n s'. (round_step ^^ n) s s' \<longrightarrow> n \<le> 3 * card (conns s - set (visited (broadcaster s))) + 3) \<and>
    (\<forall>s'. round_step\<^sup>*\<^sup>* s s' \<and> (\<nexists>t. round_step s' t) \<longrightarrow> broadcaster s' = CastSelect) \<and>
    (\<exists>s'. round_step\<^sup>*\<^sup>* s s' \<and> broadcaster s' = CastSelect)"
proof -
  note f = finite_conns [OF assms(1)]
  have 1: "\<exists>s'. round_step s s'" using round_continues [OF assms(2) f assms(3)] .
  have "round_rank s \<le> 3 * card (conns s - set (visited (broadcaster s))) + 3"
    by (cases "broadcaster s") (simp_all add: round_rank_def)
  then have 2: "n \<le> 3 * card (conns s - set (visited (broadcaster s))) + 3" if "(round_step ^^ n) s s'" for n s'
    using cast.run_length [OF that] by linarith
  have 3: "broadcaster s' = CastSelect" if "round_step\<^sup>*\<^sup>* s s'" "\<nexists>t. round_step s' t" for s'
    using round_steps_keep [OF that(1) assms(2) f assms(3)] round_continues that(2) by blast
  from cast.reaches_end [of s] 3 have "\<exists>s'. round_step\<^sup>*\<^sup>* s s' \<and> broadcaster s' = CastSelect" by blast
  with 1 2 3 show ?thesis by blast
qed

theorem broadcast_round_ends_witness:
  "\<exists>s s' :: HydraWSServer. broadcaster s = CastLoop ''scanDLL'' {0} [0] \<and> round_step\<^sup>*\<^sup>* s s' \<and> broadcaster s' = CastSelect"
proof -
  obtain s where s: "srv_reachable (NewHydraWSServer ''a'' ''/'' 1) s"
      "broadcaster s = CastLoop ''scanDLL'' {0} [0]" "\<not> crashed s"
    using srv_one_round by blast
  from broadcast_round_ends [OF s(1) _ s(3)] s(2) show ?thesis by (auto simp: in_round_def)
qed

text \<open>What is in the backend's queue can always be printed, also while the server is being
  closed: from every state of a process that has not crashed an execution prints the queued events in
  order, behind what was printed before.\<close>

lemma queue_can_be_printed:
  assumes "\<not> crashed s"
  shows "\<exists>s'. srv_reachable s s' \<and>
    printed s' = printed s @ map (\<lambda>ev. fst (ToJSON_be ev)) (ch_buf (Recv s)) \<and> ch_buf (Recv s') = []"
  using assms
proof (induction "ch_buf (Recv s)" arbitrary: s)
  case Nil
  then show ?case by (intro exI [of _ s]) (simp add: srv_start)
next
  case (Cons ev evs)
  let ?s = "s\<lparr>Recv := (Recv s)\<lparr>ch_buf := evs\<rparr>, consumed := consumed s @ [ev],
    printed := printed s @ [fst (ToJSON_be ev)]\<rparr>"
  obtain js where "ToJSON_be ev = (js, None)"
    using read_ToJSON_be(1) [of ev] by (metis prod.collapse)
  then have "consume s = Some ?s"
    using Cons.hyps(2) [symmetric] by (simp add: consume_def chan_recv_def)
  with Cons.prems have "srv_step s ?s" by (intro srv_step.intros(4) consumer)
  then have r: "srv_reachable s ?s" by (rule srv.reach_one)
  from Cons.hyps(1) [of ?s] Cons.prems obtain s' where "srv_reachable ?s s'"
      "printed s' = printed ?s @ map (\<lambda>ev. fst (ToJSON_be ev)) evs" "ch_buf (Recv s') = []"
    by auto
  with r Cons.hyps(2) [symmetric] show ?case
    by (intro exI [of _ s']) (auto intro: srv.reach_trans)
qed

end
