(* ===== verification/User_DLL.thy ===== *)
theory User_DLL
  imports C_Wide Resources Transition Agent_IPC
begin

text \<open>
  The monitoring DLL injected into other processes (\<^verbatim>\<open>MedusaUserDLL\<close>): its pipe client (\<^verbatim>\<open>IPC.c\<close>), and
  the hook on \<open>CreateRemoteThreadEx\<close> with its installation (\<^verbatim>\<open>dllmain.cpp\<close>). Windows and the hooking
  library are parameters. The event has the fields of \<open>ACEvent\<close>; that the C++ declaration has the
  layout of the Go one is a lemma. The console the DLL opens for its own output is left out.
\<close>

section \<open>The pipe client\<close>

definition PIPE_NAME :: string where
  "PIPE_NAME = [CHR 0x5C, CHR 0x5C] @ ''.'' @ [CHR 0x5C] @ ''pipe'' @ [CHR 0x5C] @ ''MedusaPipe''"

datatype client_call =
    CreateFileW string handle
  | WriteFile handle "u8 list"
  | ClosePipe handle \<comment> \<open>\<open>CloseHandle\<close>\<close>

fun opens :: "client_call \<Rightarrow> handle option" where
  "opens (CreateFileW name h) = Some h"
| "opens _ = None"

fun closes :: "client_call \<Rightarrow> handle option" where
  "closes (ClosePipe h) = Some h"
| "closes _ = None"

fun writes_to :: "client_call \<Rightarrow> handle option" where
  "writes_to (WriteFile h bs) = Some h"
| "writes_to c = closes c"

record pipe_env =
  create_file :: "string \<Rightarrow> handle"
  write_file :: "handle \<Rightarrow> u8 list \<Rightarrow> bool \<times> u32" \<comment> \<open>the result and the bytes written\<close>

text \<open>\<open>strlen\<close> of a terminated string; the length of a write is narrowed to 32 bits.\<close>

definition SendIPCMessage :: "pipe_env \<Rightarrow> u8 list \<Rightarrow> int \<times> client_call list" where
  "SendIPCMessage env msg =
     (let h = create_file env PIPE_NAME in
      if h = InvalidHandle then (0, [])
      else let data = take (unat (of_nat (length (takeWhile (\<lambda>b. b \<noteq> 0) msg)) :: u32)) msg;
               (ok, written) = write_file env h data;
               calls = [CreateFileW PIPE_NAME h, WriteFile h data, ClosePipe h] in
           if \<not> ok then (0, calls) else (1, calls))"

definition SendIPCMessageRaw :: "pipe_env \<Rightarrow> u8 list \<Rightarrow> int \<times> client_call list" where
  "SendIPCMessageRaw env data =
     (let h = create_file env PIPE_NAME in
      if h = InvalidHandle then (0, [])
      else let sent = take (unat (of_nat (length data) :: u32)) data;
               (ok, written) = write_file env h sent;
               calls = [CreateFileW PIPE_NAME h, WriteFile h sent, ClosePipe h] in
           if \<not> ok \<or> unat written \<noteq> length data then (0, calls) else (1, calls))"

section \<open>The events\<close>

definition dll_ACEvent_shape :: "field_shape list" where
  "dll_ACEvent_shape = [shape_u32, shape_array 260 shape_u16, shape_u32, shape_u32, shape_u32,
     shape_array 260 shape_u32, shape_array 1024 shape_u16, shape_u32, shape_u64, shape_u32]"

record process_env = pipe_env +
  GetCurrentProcessId :: u32
  GetCurrentThreadId :: u32
  GetProcessId :: "handle \<Rightarrow> u32"
  GetThreadId :: "handle \<Rightarrow> u32"
  stack_holes :: padding \<comment> \<open>what the padding of the event variable holds\<close>

definition send_dll_event :: "process_env \<Rightarrow> ACEvent \<Rightarrow> int \<times> client_call list" where
  "send_dll_event env ev =
     SendIPCMessageRaw (pipe_env.truncate env)
       (take (go_sizeof dll_ACEvent_shape) (evToBytes (stack_holes env) ev))"

text \<open>The copies are from literals that fit; the result of \<open>wcsncpy_s\<close> is always a value there.\<close>

definition test_event :: "process_env \<Rightarrow> ACEvent" where
  "test_event env =
     (let pid = GetCurrentProcessId env in
      zero_ACEvent\<lparr>Src := DLL,
        EventType := the (wcsncpy_s (EventType zero_ACEvent) 260 (Some (wide ''TestEvent'' @ [0]))),
        CallerPID := pid, TargetPID := pid, ThreadID := GetCurrentThreadId env, IsCreate := 1,
        ImageBase := 0xDEADBEEF, ImageSize := 1234,
        CommandLine := the (wcsncpy_s (CommandLine zero_ACEvent) 1024 (Some (wide ''echo hello world'' @ [0])))\<rparr>)"

definition SendTestEvent :: "process_env \<Rightarrow> client_call list" where
  "SendTestEvent env = snd (send_dll_event env (test_event env))"

section \<open>The hook\<close>

record thread_args =
  hProcess :: handle
  sa :: u64
  stackSize :: u64
  start :: u64
  param :: u64
  flags :: u32
  attrList :: u64
  tid :: "u32 option" \<comment> \<open>what \<open>*tid\<close> holds, \<open>None\<close> for a null pointer\<close>

text \<open>The real function: the handle it returns and what it leaves behind the pointer.\<close>

type_synonym create_thread = "thread_args \<Rightarrow> handle \<times> u32 option"

definition hook_event :: "process_env \<Rightarrow> thread_args \<Rightarrow> handle \<Rightarrow> u32 option \<Rightarrow> ACEvent" where
  "hook_event env args h tid' =
     zero_ACEvent\<lparr>Src := DLL,
       EventType := the (wcsncpy_s (EventType zero_ACEvent) 260 (Some (wide ''CreateRemoteThreadEx'' @ [0]))),
       CallerPID := GetCurrentProcessId env, TargetPID := GetProcessId env (hProcess args),
       ThreadID := (case tid' of
           Some t \<Rightarrow> if t \<noteq> 0 then t else if h \<noteq> 0 then GetThreadId env h else 0
         | None \<Rightarrow> if h \<noteq> 0 then GetThreadId env h else 0),
       IsCreate := (if h \<noteq> 0 then 1 else 0), ImageBase := start args, ImageSize := 0\<rparr>"

definition HookCreateRemoteThreadEx ::
  "process_env \<Rightarrow> create_thread option \<Rightarrow> thread_args \<Rightarrow> handle \<times> u32 option \<times> client_call list" where
  "HookCreateRemoteThreadEx env RealCreateRemoteThreadEx args =
     (let (h, tid') = (case RealCreateRemoteThreadEx of Some real \<Rightarrow> real args | None \<Rightarrow> (0, tid args));
          (_, calls) = send_dll_event env (hook_event env args h tid')
      in (h, tid', calls))"

section \<open>Installing the hook\<close>

text \<open>The hooking library: \<open>MH_CreateHook\<close> gives the trampoline on success.\<close>

record hook_env = process_env +
  MH_Initialize :: bool
  GetModuleHandleW :: "string \<Rightarrow> handle"
  get_proc_address :: "handle \<Rightarrow> string \<Rightarrow> u64"
  MH_CreateHook :: "u64 \<Rightarrow> u64 option"

datatype hook_call =
    InitializeHooks
  | CreateHook u64
  | EnableHook u64
  | UninitializeHooks
  | Ipc client_call

record dll_state =
  g_inited :: bool
  real_address :: u64 \<comment> \<open>\<open>RealCreateRemoteThreadEx\<close>, 0 for null\<close>

definition loaded_dll :: dll_state where
  "loaded_dll = \<lparr>g_inited = False, real_address = 0\<rparr>"

definition HookExport ::
  "hook_env \<Rightarrow> handle \<Rightarrow> string \<Rightarrow> u64 \<Rightarrow> u64 \<times> hook_call list" where
  "HookExport env module name pReal =
     (if module = 0 then (pReal, [])
      else let p = get_proc_address env module name in
        if p = 0 then (pReal, [])
        else case MH_CreateHook env p of
               Some trampoline \<Rightarrow> (trampoline, [CreateHook p, EnableHook p])
             | None \<Rightarrow> (pReal, [CreateHook p]))"

definition InitThread :: "hook_env \<Rightarrow> dll_state \<Rightarrow> dll_state \<times> hook_call list" where
  "InitThread env d =
     (if g_inited d then (d, [])
      else
        let d1 = d\<lparr>g_inited := True\<rparr> in
        if \<not> MH_Initialize env then (d1, [InitializeHooks])
        else
          let c1 = map Ipc (SendTestEvent (process_env.truncate env));
              kb = GetModuleHandleW env ''KernelBase.dll'';
              k32 = GetModuleHandleW env ''kernel32.dll'';
              (r2, c2) = HookExport env kb ''CreateRemoteThreadEx'' (real_address d1);
              (r3, c3) = (if r2 = 0 then HookExport env k32 ''CreateRemoteThreadEx'' r2 else (r2, []))
          in (d1\<lparr>real_address := r3\<rparr>, InitializeHooks # c1 @ c2 @ c3))"

text \<open>The entry points: whether they start a thread that runs \<open>InitThread\<close>, which \<open>CreateThread\<close> may
  refuse.\<close>

datatype attach_reason = DLL_PROCESS_ATTACH | DLL_PROCESS_DETACH | OtherReason

datatype dll_entry = RunDll32 | DllMain attach_reason

definition dll_enter :: "bool \<Rightarrow> dll_entry \<Rightarrow> dll_state \<Rightarrow> bool \<times> dll_state \<times> hook_call list" where
  "dll_enter thread_starts e d =
     (case e of
        RunDll32 \<Rightarrow> (thread_starts, d, [])
      | DllMain DLL_PROCESS_ATTACH \<Rightarrow> (thread_starts, d, [])
      | DllMain DLL_PROCESS_DETACH \<Rightarrow> (False, d\<lparr>g_inited := False\<rparr>, [UninitializeHooks])
      | DllMain OtherReason \<Rightarrow> (False, d, []))"

text \<open>What can happen in a process that has the DLL: an entry point is called, and a started thread
  reaches its atomic test of \<open>g_inited\<close>; only the thread that finds it unset goes on, and its
  remaining work is one step with the test. The third component is what was called so far.\<close>

inductive dll_step ::
  "nat \<times> dll_state \<times> hook_call list \<Rightarrow> nat \<times> dll_state \<times> hook_call list \<Rightarrow> bool" where
  enter: "dll_enter ok e d = (started, d', cs) \<Longrightarrow>
    dll_step (n, d, log) (if started then Suc n else n, d', log @ cs)"
| init: "InitThread env d = (d', cs) \<Longrightarrow> dll_step (Suc n, d, log) (n, d', log @ cs)"

inductive dll_reachable :: "nat \<times> dll_state \<times> hook_call list \<Rightarrow> nat \<times> dll_state \<times> hook_call list \<Rightarrow> bool"
  for s0 where
  loaded: "dll_reachable s0 s0"
| step: "dll_reachable s0 s \<Longrightarrow> dll_step s s' \<Longrightarrow> dll_reachable s0 s'"

section \<open>Lemmas\<close>

lemma ipc_handles:
  "track opens closes writes_to hs (snd (SendIPCMessageRaw env data)) = Some hs"
  "track opens closes writes_to hs (snd (SendIPCMessage penv msg)) = Some hs"
  by (simp_all add: SendIPCMessageRaw_def SendIPCMessage_def track_call_def Let_def split: prod.splits)

interpretation raw_ipc: scoped opens closes writes_to "\<lambda>(env, data). snd (SendIPCMessageRaw env data)"
  by unfold_locales (simp add: ipc_handles split: prod.splits)

interpretation text_ipc: scoped opens closes writes_to "\<lambda>(env, msg). snd (SendIPCMessage env msg)"
  by unfold_locales (simp add: ipc_handles split: prod.splits)

lemma dll_layout: "dll_ACEvent_shape = ACEvent_shape" "go_sizeof dll_ACEvent_shape = 3648"
proof -
  show l: "dll_ACEvent_shape = ACEvent_shape"
    by (simp add: dll_ACEvent_shape_def ACEvent_shape_def)
  show "go_sizeof dll_ACEvent_shape = 3648"
    using ACEvent_size_eq unfolding l ACEvent_size_def .
qed

lemma pipe_names_agree: "PIPE_NAME = defaultPipe"
  by (simp add: PIPE_NAME_def defaultPipe_def)

lemma send_dll_event_calls:
  assumes "wf_ACEvent ev"
  shows "snd (send_dll_event env ev) =
    (let h = create_file env PIPE_NAME in if h = InvalidHandle then []
     else [CreateFileW PIPE_NAME h, WriteFile h (evToBytes (stack_holes env) ev), ClosePipe h])"
  using assms
  by (simp add: send_dll_event_def SendIPCMessageRaw_def dll_layout(2) pipe_env.truncate_def Let_def
      split: prod.splits)

lemma literal_copy:
  "0 \<notin> set (wide lit) \<Longrightarrow> length lit < n \<Longrightarrow>
     the (wcsncpy_s (replicate n 0) n (Some (wide lit @ [0]))) = wide lit @ replicate (n - length lit) 0"
  using wcsncpy_s_zeros [of "wide lit" n n "[]"] by (simp add: wide_def)

lemma hook_event_text: "EventType (hook_event env args h t) = wide ''CreateRemoteThreadEx'' @ replicate 240 0"
  using literal_copy [of "''CreateRemoteThreadEx''" 260] by (simp add: hook_event_def zero_ACEvent_def wide_def)

lemma hook_event_wf: "wf_ACEvent (hook_event env args h t)"
  using hook_event_text [of env args h t]
  by (simp add: wf_ACEvent_def) (simp add: hook_event_def zero_ACEvent_def wide_def)

lemma test_event_wf: "wf_ACEvent (test_event env)"
  using literal_copy [of "''TestEvent''" 260] literal_copy [of "''echo hello world''" 1024]
  by (simp add: wf_ACEvent_def test_event_def zero_ACEvent_def wide_def Let_def)

section \<open>Initialisation\<close>




interpretation dll: transition_system dll_step dll_reachable
proof
  fix s t P
  assume r: "dll_reachable s t" "P s" and st: "\<And>t u. dll_reachable s t \<Longrightarrow> P t \<Longrightarrow> dll_step t u \<Longrightarrow> P u"
  from r show "P t" by (induction rule: dll_reachable.induct) (auto intro: st)
qed (auto intro: dll_reachable.intros)


text \<open>The export that gets hooked: KernelBase's, or when that cannot be hooked kernel32's.\<close>

definition export_hook :: "hook_env \<Rightarrow> string \<Rightarrow> u64 option" where
  "export_hook env dll =
     (let m = GetModuleHandleW env dll; p = get_proc_address env m ''CreateRemoteThreadEx'' in
      if m = 0 \<or> p = 0 then None else MH_CreateHook env p)"

lemma InitThread_hooks:
  assumes "MH_Initialize env" and "\<forall>p. MH_CreateHook env p \<noteq> Some 0"
  shows "real_address (fst (InitThread env loaded_dll)) =
    (case export_hook env ''KernelBase.dll'' of
       Some t \<Rightarrow> t
     | None \<Rightarrow> (case export_hook env ''kernel32.dll'' of Some t \<Rightarrow> t | None \<Rightarrow> 0))"
  using assms
  by (auto simp: InitThread_def HookExport_def export_hook_def loaded_dll_def Let_def split: option.splits prod.splits)

section \<open>Properties\<close>

text \<open>C26. A call through the hook returns the handle the real function returned and leaves
  behind the pointer what it left there, whatever happens to the pipe; the DLL has then tried to
  report it, by opening the pipe the agent serves and, when that succeeds, writing the 3648 bytes of
  one event and closing the pipe again.\<close>

theorem hook_transparent:
  assumes "HookCreateRemoteThreadEx env (Some real) args = (h, tid', calls)"
  shows "(h, tid') = real args \<and> PIPE_NAME = Start [] \<and>
    (if create_file env PIPE_NAME = InvalidHandle then calls = []
     else \<exists>bs. calls = [CreateFileW PIPE_NAME (create_file env PIPE_NAME),
            WriteFile (create_file env PIPE_NAME) bs, ClosePipe (create_file env PIPE_NAME)] \<and>
          length bs = 3648 \<and> ACEvent_of_bytes bs = hook_event env args h tid')"
proof -
  obtain h0 t0 where r: "real args = (h0, t0)" by fastforce
  note c = send_dll_event_calls [OF hook_event_wf [of env args h0 t0], of env]
  have "(h, tid', calls) = (h0, t0, snd (send_dll_event env (hook_event env args h0 t0)))"
    using assms r by (simp add: HookCreateRemoteThreadEx_def split: prod.splits)
  with r c show ?thesis
    using hook_event_wf [of env args h0 t0] by (auto simp: Let_def Start_def pipe_names_agree)
qed

text \<open>A process in which every call succeeds and the thread created is number 77.\<close>

definition sample_process :: process_env where
  "sample_process = \<lparr>create_file = (\<lambda>_. 6), write_file = (\<lambda>_ bs. (True, of_nat (length bs))),
     GetCurrentProcessId = 8, GetCurrentThreadId = 12, GetProcessId = (\<lambda>_. 1234), GetThreadId = (\<lambda>_. 77),
     stack_holes = (0, 0)\<rparr>"

definition sample_args :: thread_args where
  "sample_args = \<lparr>hProcess = 4, sa = 0, stackSize = 0, start = 0x7FF600001000, param = 0, flags = 0,
     attrList = 0, tid = None\<rparr>"

theorem hook_transparent_witness:
  "\<exists>calls bs. HookCreateRemoteThreadEx sample_process (Some (\<lambda>a. (20, tid a))) sample_args = (20, None, calls) \<and>
     calls = [CreateFileW PIPE_NAME 6, WriteFile 6 bs, ClosePipe 6] \<and> ThreadID (ACEvent_of_bytes bs) = 77"
proof -
  obtain h t calls where c: "HookCreateRemoteThreadEx sample_process (Some (\<lambda>a. (20, tid a))) sample_args = (h, t, calls)"
    using prod_cases3 by blast
  from hook_transparent [OF c] c show ?thesis
    by (auto simp: sample_process_def sample_args_def InvalidHandle_def hook_event_def)
qed



end
