(* ===== verification/System.thy ===== *)
theory System
  imports Agent_WS Backend_Server
begin

text \<open>
  The agent's client and the backend's server as one system: the network hands the frames written on
  a connection of the agent to the backend's end of it in order, and need not hand over all of them.
  The steps of each side are those of its own theory, so that what is shown there holds here; what is
  new is the invariant of the network between them.
\<close>

section \<open>The two programs and the network between them\<close>

record system =
  agent_side :: HydraWS
  backend_side :: HydraWSServer
  peer :: "nat \<Rightarrow> conn option" \<comment> \<open>the backend's end of the agent's connections\<close>

text \<open>What the agent has written on its connection \<open>k\<close>, and what the backend has read from its
  connection \<open>c\<close>.\<close>

definition sent_on :: "nat \<Rightarrow> HydraWS \<Rightarrow> wsFrame list" where
  "sent_on k h = map snd (filter (\<lambda>(k', _). k' = k) (wire h))"

definition read_from :: "conn \<Rightarrow> HydraWSServer \<Rightarrow> (msg_type \<times> u8 list) list" where
  "read_from c s = map snd (filter (\<lambda>(c', _). c' = c) (frames s))"

definition payload :: "wsFrame \<Rightarrow> msg_type \<times> u8 list" where
  "payload f = (mt f, the (data f))"

inductive sys_step :: "system \<Rightarrow> system \<Rightarrow> bool" where
  agent_moves: "ws_step (agent_side y) h \<Longrightarrow> sys_step y (y\<lparr>agent_side := h\<rparr>)"
| backend_moves: "srv_step (backend_side y) s \<Longrightarrow> frames s = frames (backend_side y) \<Longrightarrow>
    sys_step y (y\<lparr>backend_side := s\<rparr>)"
| connected: "peer y k = None \<Longrightarrow> k < conns_made (agent_side y) \<Longrightarrow> c \<notin> ran (peer y) \<Longrightarrow>
    handlers (backend_side y) c = NoConn \<Longrightarrow> sys_step y (y\<lparr>peer := (peer y)(k \<mapsto> c)\<rparr>)"
| arrives: "peer y k = Some c \<Longrightarrow> \<not> crashed (backend_side y) \<Longrightarrow> handlers (backend_side y) c = Reading \<Longrightarrow>
    n = length (read_from c (backend_side y)) \<Longrightarrow> n < length (sent_on k (agent_side y)) \<Longrightarrow>
    payload (sent_on k (agent_side y) ! n) = (m, msg) \<Longrightarrow>
    sys_step y (y\<lparr>backend_side := handle_frame c m msg (backend_side y)\<rparr>)"
| others: "c \<notin> ran (peer y) \<Longrightarrow> \<not> crashed (backend_side y) \<Longrightarrow> handlers (backend_side y) c = Reading \<Longrightarrow>
    sys_step y (y\<lparr>backend_side := handle_frame c m msg (backend_side y)\<rparr>)"

inductive sys_reachable :: "system \<Rightarrow> system \<Rightarrow> bool" for y0 where
  sys_start: "sys_reachable y0 y0"
| sys_more: "sys_reachable y0 y \<Longrightarrow> sys_step y y' \<Longrightarrow> sys_reachable y0 y'"

definition new_system :: "string \<Rightarrow> ACEvent chan \<Rightarrow> string \<Rightarrow> string \<Rightarrow> nat \<Rightarrow> system" where
  "new_system url ch addr path buf =
     \<lparr>agent_side = NewHydraWS url ch, backend_side = NewHydraWSServer addr path buf, peer = (\<lambda>_. None)\<rparr>"

interpretation sys: transition_system sys_step sys_reachable
proof
  fix s t P
  assume r: "sys_reachable s t" "P s" and st: "\<And>t u. sys_reachable s t \<Longrightarrow> P t \<Longrightarrow> sys_step t u \<Longrightarrow> P u"
  from r show "P t" by (induction rule: sys_reachable.induct) (auto intro: st)
qed (auto intro: sys_reachable.intros)

text \<open>Both sides do what they do alone.\<close>

lemma sys_agent_side: "sys_reachable y y' \<Longrightarrow> ws_reachable (agent_side y) (agent_side y')"
  by (erule sys.reach_induct) (auto intro: ws_reachable.intros elim!: sys_step.cases)

lemma sys_backend_side: "sys_reachable y y' \<Longrightarrow> srv_reachable (backend_side y) (backend_side y')"
proof (erule sys.reach_induct)
  fix t u
  assume "sys_reachable y t" and r: "srv_reachable (backend_side y) (backend_side t)" and "sys_step t u"
  from \<open>sys_step t u\<close> r show "srv_reachable (backend_side y) (backend_side u)"
    by cases (auto intro: srv_more srv_step.intros(1) handleWS_step.read)
qed (rule srv_start)

section \<open>The network invariant\<close>

lemma wire_grows: "ws_step h h' \<Longrightarrow> \<exists>w. wire h' = wire h @ w"
  by (auto elim!: ws_step.cases step_elims simp: with_defs)

lemma read_from_handle [simp]:
  "read_from c' (handle_frame c m msg s) = read_from c' s @ (if c' = c then [(m, msg)] else [])"
  by (auto simp: read_from_def handle_frame_def set_handler_def Let_def split: option.splits)

lemma handlers_handle: "handlers s c = Reading \<Longrightarrow> handlers (handle_frame c m msg s) c' = NoConn \<longleftrightarrow> handlers s c' = NoConn"
  by (auto simp: handle_frame_def set_handler_def Let_def split: option.splits)

definition net_inv :: "system \<Rightarrow> bool" where
  "net_inv y \<longleftrightarrow>
     (\<forall>k c. peer y k = Some c \<longrightarrow> k < conns_made (agent_side y) \<and>
        (\<exists>n. read_from c (backend_side y) = map payload (take n (sent_on k (agent_side y))))) \<and>
     (\<forall>c. handlers (backend_side y) c = NoConn \<longrightarrow> read_from c (backend_side y) = []) \<and>
     inj_on (peer y) (dom (peer y))"

lemma net_inv_peer:
  "net_inv y \<Longrightarrow> peer y k = Some c \<Longrightarrow>
     \<exists>n. read_from c (backend_side y) = map payload (take n (sent_on k (agent_side y)))"
  unfolding net_inv_def by blast

lemma conns_made_grows: "ws_step h h' \<Longrightarrow> conns_made h \<le> conns_made h'"
  by (auto elim!: ws_step.cases step_elims simp: with_defs)

lemma NoConn_before: "srv_step s s' \<Longrightarrow> handlers s' c = NoConn \<Longrightarrow> handlers s c = NoConn"
  by (auto elim!: srv_step.cases handleWS_step.cases Start_step.cases Server_Close_step.cases main_step.cases
      consume_cases main_command_cases deliver_cases
      simp: srv_defs Close_recv_def split: option.splits if_splits closing.splits)

lemma sent_on_grows: "ws_step h h' \<Longrightarrow> \<exists>w. sent_on k h' = sent_on k h @ w"
  using wire_grows [of h h'] by (auto simp: sent_on_def)

lemma net_inv_step:
  assumes "sys_step y y'" and "net_inv y"
  shows "net_inv y'"
  using assms(1)
proof (cases rule: sys_step.cases)
  case (agent_moves h)
  have "\<exists>n'. take n (sent_on k (agent_side y)) = take n' (sent_on k h)" for n k
  proof -
    obtain w where "sent_on k h = sent_on k (agent_side y) @ w" using sent_on_grows [OF agent_moves(2)] by blast
    then have "take n (sent_on k (agent_side y)) = take (min n (length (sent_on k (agent_side y)))) (sent_on k h)"
      by (simp add: min_def)
    then show ?thesis by blast
  qed
  with agent_moves assms(2) conns_made_grows [OF agent_moves(2)] show ?thesis
    unfolding net_inv_def by simp (metis order_less_le_trans)
next
  case (backend_moves s)
  have "read_from c s = read_from c (backend_side y)" for c
    using backend_moves(3) by (simp add: read_from_def)
  with backend_moves assms(2) NoConn_before [OF backend_moves(2)] show ?thesis
    unfolding net_inv_def by simp
next
  case (connected k c)
  have "read_from c (backend_side y) = map payload (take 0 (sent_on k (agent_side y)))"
    using assms(2) connected(5) by (simp add: net_inv_def)
  moreover have "inj_on ((peer y)(k \<mapsto> c)) (dom ((peer y)(k \<mapsto> c)))"
    using assms(2) connected(4) by (auto simp: net_inv_def inj_on_def dom_def ran_def)
  ultimately show ?thesis
    using connected assms(2) unfolding net_inv_def by auto
next
  case (arrives k c n m msg)
  obtain n0 where n0: "read_from c (backend_side y) = map payload (take n0 (sent_on k (agent_side y)))"
    using net_inv_peer [OF assms(2) arrives(2)] by blast
  then have "n = n0" using arrives(5,6) by (auto simp: min_def split: if_splits)
  then have r: "read_from c (backend_side y) @ [(m, msg)] = map payload (take (Suc n) (sent_on k (agent_side y)))"
    using n0 arrives(6,7) by (simp add: take_Suc_conv_app_nth)
  have inj: "k' = k" if "peer y k' = Some c" for k'
    using assms(2) that arrives(2) by (auto simp: net_inv_def inj_on_def dom_def)
  have "\<exists>n. read_from c' (handle_frame c m msg (backend_side y)) = map payload (take n (sent_on k' (agent_side y)))"
    if "peer y k' = Some c'" for k' c'
    using that r inj [of k'] assms(2) by (auto simp: net_inv_def)
  moreover have "read_from c' (handle_frame c m msg (backend_side y)) = []"
    if "handlers (handle_frame c m msg (backend_side y)) c' = NoConn" for c'
    using that handlers_handle [OF arrives(4)] arrives(4) assms(2) by (auto simp: net_inv_def)
  ultimately show ?thesis
    using arrives(1) assms(2) unfolding net_inv_def by simp
next
  case (others c m msg)
  have "read_from c' (handle_frame c m msg (backend_side y)) = read_from c' (backend_side y)"
    if "peer y k' = Some c'" for k' c'
    using that others(2) by (auto simp: ran_def)
  moreover have "read_from c' (handle_frame c m msg (backend_side y)) = []"
    if "handlers (handle_frame c m msg (backend_side y)) c' = NoConn" for c'
    using that handlers_handle [OF others(4)] others(4) assms(2) by (auto simp: net_inv_def)
  ultimately show ?thesis
    using others(1) assms(2) unfolding net_inv_def by simp
qed

lemma sys_reachable_net:
  assumes "sys_reachable (new_system url ch addr path buf) y"
  shows "net_inv y"
  using sys.reach_invariant [where I = net_inv, OF assms _ net_inv_step]
  by (simp add: net_inv_def new_system_def read_from_def NewHydraWSServer_def)

text \<open>The states of the two sides in a state of the system.\<close>

lemma sys_sides:
  assumes "sys_reachable (new_system url ch addr path buf) y"
  shows "ws_reachable (NewHydraWS url ch) (agent_side y)"
    and "srv_reachable (NewHydraWSServer addr path buf) (backend_side y)"
  using sys_agent_side [OF assms] sys_backend_side [OF assms] by (simp_all add: new_system_def)

section \<open>From the agent's channel to the backend's queue\<close>

lemma map_filter_select:
  "List.map_filter (\<lambda>(c', x, y). if c' = c then g x y else None) fs =
     List.map_filter (\<lambda>(x, y). g x y) (map snd (filter (\<lambda>(c', _). c' = c) fs))"
  by (induction fs) (auto simp: List.map_filter_def)

text \<open>What the backend makes of frames the agent wrote.\<close>

lemma frame_events_of_wire:
  assumes "\<forall>f \<in> set fs. mt f = BinaryMessage \<longrightarrow> length (the (data f)) = ACEvent_size"
  shows "List.map_filter (\<lambda>(mt, msg). frame_event mt msg) (map (\<lambda>f. (mt f, the (data f))) fs) =
    map to_backend (frame_ACEvents fs)"
  using assms
  by (induction fs) (auto simp: List.map_filter_def frame_ACEvents_def frame_event_def event_of_message_eq)

lemma accepted_prefix:
  assumes "srv_reachable (NewHydraWSServer addr path buf) s"
  shows "\<exists>rest. frame_events c s = accepted_from c s @ rest"
  using srv_reachable_invs(3) [OF assms] by (auto simp: order_inv_def)

text \<open>The backend's events of a multiset of frames.\<close>

definition events_of :: "wsFrame multiset \<Rightarrow> ACEvent_be multiset" where
  "events_of fs = image_mset (\<lambda>f. to_backend (ACEvent_of_bytes (the (data f))))
     (filter_mset (\<lambda>f. mt f = BinaryMessage) fs)"

lemma events_of_mset: "mset (map to_backend (frame_ACEvents fs)) = events_of (mset fs)"
  by (simp add: events_of_def frame_ACEvents_def multiset.map_comp comp_def flip: mset_filter)

lemma events_of_mono: "fs \<subseteq># gs \<Longrightarrow> events_of fs \<subseteq># events_of gs"
  by (simp add: events_of_def image_mset_subseteq_mono multiset_filter_mono)

lemma events_of_sum: "(\<Sum>k<N. events_of (f k)) = events_of (\<Sum>k<(N::nat). f k)"
  by (induction N) (simp_all add: events_of_def)

lemma sum_parts_mono:
  fixes f g :: "nat \<Rightarrow> 'a multiset"
  assumes "\<And>k. f k \<subseteq># g k"
  shows "(\<Sum>k<N. f k) \<subseteq># (\<Sum>k<N. g k)"
  using assms by (induction N) (simp_all add: subset_mset.add_mono)

lemma sent_on_parts: "(\<Sum>k<N. mset (sent_on k h)) \<subseteq># mset (map snd (wire h))"
proof -
  have "(\<Sum>k<N. mset (map snd (filter (\<lambda>(k', _). k' = k) w))) \<subseteq># mset (map snd w)" for w :: "(nat \<times> wsFrame) list"
  proof (induction w)
    case (Cons x w)
    obtain j f where x: "x = (j, f)" by fastforce
    have "(\<Sum>k<N. mset (map snd (filter (\<lambda>(k', _). k' = k) (x # w)))) =
        (\<Sum>k<N. if j = k then {#f#} else {#}) + (\<Sum>k<N. mset (map snd (filter (\<lambda>(k', _). k' = k) w)))"
      unfolding x sum.distrib [symmetric] by (intro sum.cong) auto
    moreover have "(\<Sum>k<N. if j = k then {#f#} else {#}) \<subseteq># {#f#}"
      by (simp add: sum.delta')
    ultimately show ?case
      using Cons.IH x by (simp add: subset_mset.add_mono [of _ "{#f#}", simplified])
  qed simp
  then show ?thesis by (simp add: sent_on_def)
qed

text \<open>What the backend has accepted from the agent's connection \<open>k\<close>.\<close>

definition received_on :: "nat \<Rightarrow> system \<Rightarrow> ACEvent_be list" where
  "received_on k y = (case peer y k of None \<Rightarrow> [] | Some c \<Rightarrow> accepted_from c (backend_side y))"

lemma prefix_accepted:
  assumes "ws_reachable (NewHydraWS url ch) h" and "\<forall>ev \<in> set (ch_buf ch). wf_ACEvent ev"
    and "srv_reachable (NewHydraWSServer addr path buf) s"
    and "read_from c s = map payload (take n (sent_on k h))"
  shows "\<exists>rest. map to_backend (frame_ACEvents (sent_on k h)) = accepted_from c s @ rest"
proof -
  have "mset (map snd (wire h)) \<subseteq># mset (queued h)"
    using ws_invs(1,2) [OF assms(1,2)] by (simp add: send_queue_inv_def conservation_inv_def)
  then have "set (sent_on k h) \<subseteq> set (queued h)"
    by (force simp: sent_on_def dest: set_mset_mono)
  then have "\<forall>f \<in> set (take n (sent_on k h)). mt f = BinaryMessage \<longrightarrow> length (the (data f)) = ACEvent_size"
    using ws_invs(5) [OF assms(1,2)] by (auto simp: pump_inv_def dest!: in_set_takeD)
  then have "frame_events c s = map to_backend (frame_ACEvents (take n (sent_on k h)))"
    unfolding frame_events_def map_filter_select read_from_def [symmetric] assms(4) payload_def [abs_def]
    by (rule frame_events_of_wire)
  moreover have "frame_ACEvents (sent_on k h) = frame_ACEvents (take n (sent_on k h)) @ frame_ACEvents (drop n (sent_on k h))"
    by (metis append_take_drop_id frame_ACEvents_append(1))
  ultimately show ?thesis using accepted_prefix [OF assms(3), of c] by auto
qed

lemma received_prefix:
  assumes "sys_reachable (new_system url ch addr path buf) y" and "\<forall>ev \<in> set (ch_buf ch). wf_ACEvent ev"
  shows "\<exists>rest. map to_backend (frame_ACEvents (sent_on k (agent_side y))) = received_on k y @ rest"
proof (cases "peer y k")
  case (Some c)
  note w = sys_sides [OF assms(1)]
  obtain n where "read_from c (backend_side y) = map payload (take n (sent_on k (agent_side y)))"
    using net_inv_peer [OF sys_reachable_net [OF assms(1)] Some] by blast
  from prefix_accepted [OF w(1) assms(2) w(2) this] Some show ?thesis by (simp add: received_on_def)
qed (simp add: received_on_def)

lemma received_parts:
  assumes "sys_reachable (new_system url ch addr path buf) y" and "\<forall>ev \<in> set (ch_buf ch). wf_ACEvent ev"
  shows "(\<Sum>k < conns_made (agent_side y). mset (received_on k y)) \<subseteq># mset (map to_backend (pumped (agent_side y)))"
proof -
  let ?h = "agent_side y" and ?N = "conns_made (agent_side y)"
  note i = ws_invs [OF sys_sides(1) [OF assms(1)] assms(2)]
  have "mset (received_on k y) \<subseteq># events_of (mset (sent_on k ?h))" for k
    using received_prefix [OF assms, of k] by (metis events_of_mset mset_append mset_subset_eq_add_left)
  then have "(\<Sum>k<?N. mset (received_on k y)) \<subseteq># (\<Sum>k<?N. events_of (mset (sent_on k ?h)))"
    by (rule sum_parts_mono)
  also have "\<dots> \<subseteq># events_of (mset (map snd (wire ?h)))"
    unfolding events_of_sum by (rule events_of_mono [OF sent_on_parts])
  also have "\<dots> \<subseteq># events_of (mset (queued ?h))"
    using i(1,2) by (intro events_of_mono) (simp add: send_queue_inv_def conservation_inv_def)
  also have "\<dots> \<subseteq># mset (map to_backend (pumped ?h))"
    unfolding events_of_mset [symmetric] using i(5) by (auto simp: pump_inv_def)
  finally show ?thesis .
qed

text \<open>Frames are written on connections that were made.\<close>

definition wire_inv :: "HydraWS \<Rightarrow> bool" where
  "wire_inv h \<longleftrightarrow> (\<forall>(k, f) \<in> set (wire h). k < conns_made h) \<and>
     (\<forall>k c f. writers h k = Selecting c \<or> writers h k = Writing c f \<longrightarrow> c < conns_made h) \<and>
     (\<forall>c. h_conn h = Some c \<longrightarrow> c < conns_made h)"

lemma wire_inv_quiet:
  assumes "wire_inv h" and "wire h' = wire h" and "writers h' = writers h" and "conns_made h' = conns_made h"
    and "h_conn h' = h_conn h \<or> h_conn h' = None"
  shows "wire_inv h'"
  using assms by (auto simp: wire_inv_def)

lemma drop_conn_conn: "h_conn (drop_conn h) = None"
  by (simp add: drop_conn_def split: option.splits)

lemma wire_inv_write: "writeLoop_step k h h' \<Longrightarrow> wire_inv h \<Longrightarrow> wire_inv h'"
  by (erule writeLoop_step.cases)
    (auto simp: wire_inv_def start_worker_def split: if_splits option.splits)

lemma wire_inv_connect: "connect_step h h' \<Longrightarrow> wire_inv h \<Longrightarrow> wire_inv h'"
  by (erule connect_step.cases) (auto simp: wire_inv_def less_Suc_eq split: if_splits)

lemma wire_inv_steps:
  assumes "wire_inv h"
  shows "produce_step h h' \<Longrightarrow> wire_inv h'" and "eventPump_step h h' \<Longrightarrow> wire_inv h'"
    and "readLoop_step k h h' \<Longrightarrow> wire_inv h'"
    and "pingLoop_step k h h' \<Longrightarrow> wire_inv h'" and "SendJSON_step b h h' \<Longrightarrow> wire_inv h'"
    and "configure_step h h' \<Longrightarrow> wire_inv h'" and "HydraWS_Close_step h h' \<Longrightarrow> wire_inv h'"
  by (auto simp: with_defs drop_conn_conn intro!: wire_inv_quiet [OF assms]
      elim!: produce_step.cases eventPump_step.cases readLoop_step.cases pingLoop_step.cases
        SendJSON_step.cases configure_step.cases HydraWS_Close_step.cases)

lemma wire_inv_run: "run_step h h' \<Longrightarrow> wire_inv h \<Longrightarrow> wire_inv h'"
proof (erule run_step.cases, goal_cases)
  case 1
  then show ?case using wire_inv_connect by blast
qed (auto simp: drop_conn_conn elim!: wire_inv_quiet)

lemma wire_inv_step: "ws_step h h' \<Longrightarrow> wire_inv h \<Longrightarrow> wire_inv h'"
  by (erule ws_step_inv) (auto intro: wire_inv_write wire_inv_run wire_inv_steps)

lemma one_connection_wire:
  assumes "ws_reachable (NewHydraWS url ch) h" and "conns_made h \<le> 1"
  shows "sent_on 0 h = map snd (wire h)"
proof -
  have "wire_inv h"
    using ws_reachable_inv [where I = wire_inv, OF assms(1) _ wire_inv_step] by (simp add: wire_inv_def NewHydraWS_def)
  with assms(2) have "filter (\<lambda>(k', _). k' = 0) (wire h) = wire h"
    by (intro filter_True) (auto simp: wire_inv_def)
  then show ?thesis by (simp add: sent_on_def)
qed

text \<open>The same without the system: a backend that read a prefix of what an agent wrote on its first
  connection.\<close>

lemma agent_stream_arrives:
  assumes "ws_reachable (NewHydraWS url ch) h" and "\<forall>ev \<in> set (ch_buf ch). wf_ACEvent ev"
    and "conns_made h \<le> 1"
    and "srv_reachable (NewHydraWSServer addr path buf) s"
    and "read_from c s = map payload (map snd (take n (wire h)))"
  shows "\<exists>rest. map to_backend (pumped h) = accepted_from c s @ rest"
proof -
  have t: "map snd (take n (wire h)) = take n (sent_on 0 h)"
    using one_connection_wire [OF assms(1,3)] by (simp add: take_map)
  have "\<exists>rest. map to_backend (frame_ACEvents (sent_on 0 h)) = accepted_from c s @ rest"
    by (rule prefix_accepted [OF assms(1,2,4) assms(5) [unfolded t]])
  then show ?thesis
    using first_connection_prefixes(2) [OF assms(1-3)] one_connection_wire [OF assms(1,3)] by auto
qed

section \<open>A run of both\<close>

lemma sys_agent_run: "ws_reachable (agent_side y) h \<Longrightarrow> sys_reachable y (y\<lparr>agent_side := h\<rparr>)"
proof (induction rule: ws_reachable.induct)
  case (ws_more h h')
  then show ?case using sys_more [OF ws_more.IH agent_moves, of h'] by simp
qed (simp add: sys_start)

lemma sys_sample:
  "\<exists>y. sys_reachable (new_system ''ws://h'' (make_chan 1) ''a'' ''/'' 1) y \<and> conns_made (agent_side y) = 1 \<and>
     received_on 0 y = [to_backend zero_ACEvent] \<and> pumped (agent_side y) = [zero_ACEvent]"
proof -
  let ?y0 = "new_system ''ws://h'' (make_chan 1) ''a'' ''/'' 1"
  let ?msg = "evToBytes (0, 0) zero_ACEvent" and ?ev = "to_backend zero_ACEvent"
  obtain h where h: "ws_reachable (NewHydraWS ''ws://h'' (make_chan 1)) h" "conns_made h = 1"
      "wire h = [(0, sample_frame)]" "pumped h = [zero_ACEvent]"
    using ws_sample by blast
  define s0 where "s0 = NewHydraWSServer ''a'' ''/'' 1"
  define Y where "Y s = \<lparr>agent_side = h, backend_side = s, peer = [0 \<mapsto> (0 :: conn)]\<rparr>" for s
  have 1: "sys_reachable ?y0 \<lparr>agent_side = h, backend_side = s0, peer = (\<lambda>_. None)\<rparr>"
    using sys_agent_run [of ?y0 h] h(1) by (simp add: new_system_def s0_def)
  have "sys_step \<lparr>agent_side = h, backend_side = s0, peer = (\<lambda>_. None)\<rparr> (Y s0)"
    using connected [of "\<lparr>agent_side = h, backend_side = s0, peer = (\<lambda>_. None)\<rparr>" 0 0] h(2)
    by (simp add: Y_def s0_def NewHydraWSServer_def)
  with 1 have 2: "sys_reachable ?y0 (Y s0)" by (rule sys_more)
  have bm: "sys_reachable ?y0 (Y s')" if "sys_reachable ?y0 (Y s)" "srv_step s s'" "frames s' = frames s" for s s'
    using sys_more [OF that(1) backend_moves [of "Y s" s']] that(2,3) by (simp add: Y_def)
  define s1 where "s1 = set_handler 0 Upgraded s0"
  define s2 where "s2 = register_conn 0 s1"
  define s3 where "s3 = handle_frame 0 BinaryMessage ?msg s2"
  define s4 where "s4 = set_handler 0 Reading (s3\<lparr>Recv := (Recv s3)\<lparr>ch_buf := [?ev]\<rparr>, accepted := [(0, ?ev)]\<rparr>)"
  note ss = s0_def s1_def s2_def s3_def NewHydraWSServer_def srv_defs make_chan_def
  have fe: "frame_event BinaryMessage ?msg = Some ?ev" by (simp add: frame_event_def)
  have "srv_step s0 s1" unfolding s1_def
    by (rule srv_step.intros(1) [OF _ upgrade]) (simp_all add: ss)
  with 2 have 3: "sys_reachable ?y0 (Y s1)" by (rule bm) (simp add: ss)
  have "srv_step s1 s2" unfolding s2_def
    by (rule srv_step.intros(1) [OF _ register]) (simp_all add: ss read_locked_def)
  with 3 have 4: "sys_reachable ?y0 (Y s2)" by (rule bm) (simp add: ss)
  have "sys_step (Y s2) (Y s3)"
    using arrives [of "Y s2" 0 0 0 BinaryMessage ?msg] h(3)
    by (simp add: Y_def s3_def sent_on_def read_from_def payload_def sample_frame_def) (simp add: ss)
  with 4 have 5: "sys_reachable ?y0 (Y s3)" by (rule sys_more)
  have "srv_step s3 s4" unfolding s4_def
    by (rule srv_step.intros(1) [OF _ send [of s3 0 ?ev]]) (simp_all add: ss fe deliver_def chan_send_def)
  with 5 have "sys_reachable ?y0 (Y s4)" by (rule bm) (simp add: s4_def ss fe)
  then show ?thesis
    using h by (intro exI [of _ "Y s4"]) (simp add: Y_def received_on_def accepted_from_def s4_def ss fe)
qed

section \<open>Properties\<close>

text \<open>C1. The two programs together, over a network that delivers what is written on a connection
  in order and may stop doing so at any time, with other clients talking to the backend as they
  like: whatever the connections do, the events the backend has accepted from the agent's
  connections, all taken together, are events the agent took from its event channel, each at most
  once and unchanged; from each connection they come in the order they were written; and on the
  first connection they are a prefix of what the agent took.\<close>

theorem system_delivers_at_most_once:
  assumes "sys_reachable (new_system url ch addr path buf) y" and "\<forall>ev \<in> set (ch_buf ch). wf_ACEvent ev"
  shows "(\<Sum>k < conns_made (agent_side y). mset (received_on k y)) \<subseteq># mset (map to_backend (pumped (agent_side y))) \<and>
    (\<forall>k. \<exists>rest. map to_backend (frame_ACEvents (sent_on k (agent_side y))) = received_on k y @ rest) \<and>
    (conns_made (agent_side y) \<le> 1 \<longrightarrow>
       (\<exists>rest. map to_backend (pumped (agent_side y)) = received_on 0 y @ rest))"
proof -
  note w = sys_sides(1) [OF assms(1)]
  have "\<exists>rest. map to_backend (pumped (agent_side y)) = received_on 0 y @ rest" if "conns_made (agent_side y) \<le> 1"
    using received_prefix [OF assms, of 0] first_connection_prefixes(2) [OF w assms(2) that]
    by (auto simp: one_connection_wire [OF w that])
  with received_parts [OF assms] received_prefix [OF assms] show ?thesis by blast
qed

theorem system_delivers_at_most_once_witness:
  "\<exists>y :: system. received_on 0 y = [to_backend zero_ACEvent] \<and>
     (\<exists>rest. map to_backend (pumped (agent_side y)) = received_on 0 y @ rest)"
proof -
  obtain y where y: "sys_reachable (new_system ''ws://h'' (make_chan 1) ''a'' ''/'' 1) y"
      "conns_made (agent_side y) = 1" "received_on 0 y = [to_backend zero_ACEvent]"
    using sys_sample by blast
  from system_delivers_at_most_once [OF y(1)] y(2,3) show ?thesis by (intro exI [of _ y]) simp
qed

end
