(* ===== verification/Spec2Isabelle.thy ===== *)
theory Spec2Isabelle
  imports Agent_Main Agent_WS_Spec Agent_WS_Live Backend_Spec User_DLL System
begin

text \<open>
  Medusa, an anti-cheat system: a kernel driver (\<^verbatim>\<open>src/MedusaKernelDriver\<close>, C), a monitoring DLL
  (\<^verbatim>\<open>src/MedusaUserDLL\<close>, C++), the userland agent (\<^verbatim>\<open>src/MedusaUserlandAgent\<close>, Go) and the backend server
  (\<^verbatim>\<open>src/MedusaBackend\<close>, Go).

  \<^bold>\<open>The system.\<close> The driver reports processes, threads and images, and takes rights away from handles to
  the process the agent told it to protect; the DLL, injected into another process, reports the remote
  threads it creates. The agent receives the driver's events through a filter port (\<open>Receiver\<close>, \<open>Loop\<close>),
  the DLL's through a named pipe (\<open>IPC.go\<close>), and makes its own by scanning the modules of the
  protected process. All of them go through \<open>EventChannel\<close> to a WebSocket client (\<open>HydraWS\<close>), which
  sends each as the raw bytes of the struct. The backend (\<open>HydraWSServer\<close>) decodes the frames of all
  agents into one channel, prints them as JSON, and broadcasts the text command on which the agents
  scan.

  \<^bold>\<open>The theories\<close>, in the order they build on each other.

  Shared:
  \<^item> \<open>Medusa_Prelude\<close>: the Go types as words, little-endian bytes, the collections \<open>wire_simps\<close> and
    \<open>loop_simps\<close>, generic list lemmas.
  \<^item> \<open>Resources\<close>: what a sequence of system calls holds, and the contract of a routine that gives back
    what it takes (the locale \<open>scoped\<close>, interpreted for the scanner, the injector and the pipe client).
  \<^item> \<open>Transition\<close>: the locales \<open>transition_system\<close> (invariants of the reachable states), \<open>simulation\<close>
    (refinement of an abstract machine) and \<open>ranked_steps\<close> (termination), interpreted for the client,
    the server, the DLL and the two programs together.
  \<^item> \<open>Go_Wire\<close>: struct layout (alignment, offsets, size) and codecs; the locale \<open>codec\<close> with its
    extension \<open>array_codec\<close>, interpreted for 16, 32 and 64 bits and their arrays.
  \<^item> \<open>Go_Text\<close>, \<open>Go_Json\<close>, \<open>Go_Channel\<close>, \<open>C_Wide\<close>: what the programs use of the languages and their
    standard libraries: UTF-8, UTF-16, \<open>syscall.UTF16ToString\<close>, \<open>json.Marshal\<close> of a map (with a reader,
    to state that it can be read back), buffered channels with close (the locale \<open>fifo\<close>);
    \<open>wcscpy_s\<close>, \<open>wcsncpy_s\<close>, and an array of \<open>int\<close> used as one of \<open>wchar_t\<close>.
  \<^item> \<open>AC_Event\<close>, \<open>Event_Text\<close>: the struct \<open>ACEvent\<close>, \<open>evToBytes\<close> and its inverse, the text helpers of
    \<^verbatim>\<open>Event.go\<close> and \<^verbatim>\<open>structs.go\<close>, \<open>ToJSON\<close>.

  The driver and the DLL:
  \<^item> \<open>Kernel_Driver\<close>: the record \<open>driver\<close> of the driver's globals; the notification routines
    (\<^verbatim>\<open>NotifyRoutine.c\<close>), the handle callback (\<^verbatim>\<open>Callback.c\<close>), the port (\<^verbatim>\<open>Coms.c\<close>, \<^verbatim>\<open>ComsWarp.h\<close>), loading
    and unloading (\<^verbatim>\<open>Main.c\<close>, \<^verbatim>\<open>Minifilter.c\<close>); \<open>driver_run\<close> is a sequence of calls from the kernel.
  \<^item> \<open>User_DLL\<close>: the pipe client (\<^verbatim>\<open>IPC.c\<close>), the hook and the entry points (\<^verbatim>\<open>dllmain.cpp\<close>), with the threads
    the entry points start as interleaved steps.

  The agent:
  \<^item> \<open>Agent_IPC\<close> (\<^verbatim>\<open>IPC.go\<close>), \<open>Agent_Receiver\<close> (\<^verbatim>\<open>structs.go\<close>, \<open>Loop\<close> of \<^verbatim>\<open>main.go\<close>, and how they fit the
    driver), \<open>Agent_Windows\<close> (\<^verbatim>\<open>DLLScanner.go\<close>, \<^verbatim>\<open>Injector.go\<close>, \<^verbatim>\<open>ETWConsumer.go\<close>).
  \<^item> \<open>Agent_Backoff\<close>, \<open>Agent_WS\<close> (\<^verbatim>\<open>WebSocketWorker.go\<close>): the delay, and the client's goroutines as
    interleaved steps with their invariants. \<open>Agent_WS_Runs\<close>: that \<open>Close\<close> can always finish, and
    executions that show what the client does not guarantee. \<open>Agent_WS_Live\<close>: that the queue can always
    be emptied before \<open>Close\<close>. \<open>Agent_WS_Spec\<close>: the abstract link the client implements.
  \<^item> \<open>Agent_Main\<close> (\<^verbatim>\<open>main.go\<close>): the command line, start-up and the message callback.

  The backend:
  \<^item> \<open>Backend_Event\<close>, \<open>Backend_Server\<close> (\<^verbatim>\<open>Event.go\<close>, \<^verbatim>\<open>WSServer.go\<close>, \<^verbatim>\<open>Main.go\<close>): the second declaration of
    the event, and the server's goroutines as interleaved steps. \<open>Backend_Spec\<close>: the abstract merger the
    server implements, and that a broadcast round ends.

  Together:
  \<^item> \<open>System\<close>: the client and the server with a network between them, as one step relation.
  \<^item> This theory: the properties that span the components, from the driver and the DLL to the line the
    backend prints, and from the backend's command to the scan.

  \<^bold>\<open>How code is modelled.\<close> Sequential functions are HOL functions with the source's names; a name both
  Go programs use has the suffix \<open>_be\<close> for the backend. Calls to Windows, to the kernel and to packages
  outside the repository are parameters (fields of an environment record, or the list of outcomes of
  the calls), and what the code relies on is a named hypothesis: \<open>message_mode_pipe\<close> for the pipe,
  \<open>registry_keeps\<close> for the registry, \<open>walks\<close> for an enumeration that ends, \<open>filter_runs\<close> and
  \<open>real_handles\<close> for a filter that was registered and started and handles that are not null.
  Functions that make system calls return the sequence of calls, so that their order and the handles
  can be spoken about. Goroutines and threads are step relations: one relation per function of the
  source, one rule per blocking point or select case, all interleavings. The last fields of the state
  records are history, which no guard reads. Panics are states; a routine of the driver that reads
  memory it may not read is \<open>None\<close>.

  \<^bold>\<open>Fuel.\<close> \<open>readLoop\<close>, \<open>drain\<close> and \<open>module_loop\<close> may run for ever on some pipes and enumerations and
  take fuel; \<open>read_fuel\<close> of the pending messages and the number of modules are shown to be enough.
  The loops of \<open>server\<close> and \<open>Loop\<close> never return in the source and run here over any finite list of
  outcomes.

  \<^bold>\<open>What is shown.\<close>
  \<^item> Delivery: an event keeps every field from the event channel of the agent to the JSON line of the
    backend. What the driver reports of a new process and the DLL of a remote thread arrives there as
    stated, field by field. Over all connections the backend accepts each event at most once,
    unchanged, and in order per connection.
  \<^item> Refinement: the client is a bounded link that loses at most one frame per dial; the server is a
    bounded merger that prints in order and drops only when stopped.
  \<^item> Protection: once the agent has connected, no other process gets more than two harmless rights on
    the protected process, and no other handle is touched.
  \<^item> Progress: the client's queue can always be emptied, \<open>Close\<close> can always finish, and after it nothing
    moves; a broadcast round takes a bounded number of steps, and each command goes once to each
    connection.
  \<^item> Types and resources: every message of the driver and every event of the agent is well-formed;
    handles are closed on every path; unloading gives back what loading took; the DLL initialises its
    hooks once.
  \<^item> Where the code falls short, the theorem says how far: every second character of the driver's names,
    characters lost by the narrowing to 16 bits, frames lost to a stale writer, sends on closed
    channels, bytes of the previous message in a short one, memory read without a check.

  \<^bold>\<open>Not modelled.\<close> What is printed for diagnosis, the DLL's console included; time: deadlines and
  timeouts appear only as failures that may happen at any moment; access flags of Windows calls;
  overlapping calls of the client's \<open>Close\<close>; the HTTP upgrade; the driver's routines running at the
  same time (they run one after the other), and its filter callbacks that return a constant; the
  script \<^verbatim>\<open>kernel_print_receiver.py\<close>; code in comments.
\<close>

section \<open>From the agent to the backend\<close>

text \<open>C5. A well-formed event, sent as the binary frame the agent makes of it, is
  accepted by the backend's handler, and the JSON line the backend prints for it reads back
  as the event's ten fields: the numbers exactly, and the three texts up to their terminators.\<close>

theorem event_reaches_backend:
  assumes "wf_ACEvent ev"
  shows "\<exists>ev'. frame_event (mt (event_frame pad ev)) (the (data (event_frame pad ev))) = Some ev' \<and>
    ToJSON_be ev' = (fst (ToJSON_be ev'), None) \<and>
    read_object (fst (ToJSON_be ev')) = Some
     [(''CallerPID'', JInt (sint (CallerPID ev))),
      (''CommandLine'', JStr (string_of_runes (utf16_decode (takeWhile (\<lambda>c. c \<noteq> 0) (CommandLine ev))))),
      (''EventType'', JStr (string_of_runes (utf16_decode (takeWhile (\<lambda>c. c \<noteq> 0) (EventType ev))))),
      (''ImageBase'', JInt (uint (ImageBase ev))),
      (''ImageFileName'',
       JStr (string_of_runes (utf16_decode (map ucast (takeWhile (\<lambda>v. v \<noteq> 0) (ImageFileName ev)))))),
      (''ImageSize'', JInt (uint (ImageSize ev))),
      (''IsCreate'', JInt (sint (IsCreate ev))),
      (''Src'', JInt (sint (Src ev))),
      (''TargetPID'', JInt (sint (TargetPID ev))),
      (''ThreadID'', JInt (sint (ThreadID ev)))]"
proof -
  have "frame_event (mt (event_frame pad ev)) (the (data (event_frame pad ev))) = Some (to_backend ev)"
    using assms by (simp add: frame_event_def)
  moreover have "ToJSON_be (to_backend ev) = (fst (ToJSON_be (to_backend ev)), None)"
    using read_ToJSON_be(1) [of "to_backend ev"] by (metis prod.collapse)
  ultimately show ?thesis
    by (intro exI [of _ "to_backend ev"])
      (simp add: read_ToJSON_be event_fields_be_sorted to_backend_def utf16ToString_be_def
        int32ToString_be_def utf16BufToString_def int32_units_eq)
qed

theorem event_reaches_backend_witness:
  "\<exists>ev'. frame_event BinaryMessage (evToBytes (0, 0) (zero_ACEvent\<lparr>CallerPID := 7\<rparr>)) = Some ev' \<and>
    CallerPID_be ev' = 7"
proof -
  let ?ev = "zero_ACEvent\<lparr>CallerPID := 7\<rparr>"
  have wf: "wf_ACEvent ?ev" by (simp add: wf_ACEvent_def zero_ACEvent_def)
  from event_reaches_backend [OF this, of "(0, 0)"] wf show ?thesis
    by (auto simp: frame_event_def to_backend_def)
qed

section \<open>From the driver and the hooked processes to the backend\<close>

lemma ascii_text:
  "\<forall>c \<in> set s. of_char c < (128 :: nat) \<Longrightarrow> string_of_runes (utf16_decode (wide s)) = s"
proof (induction s)
  case Nil
  then show ?case by (simp add: wide_def string_of_runes_def bytes_of_runes_def bytes_string_def)
next
  case (Cons c s)
  then have "unat (of_nat (of_char c) :: u16) = of_char c" "(of_char c :: nat) < 128"
    by (simp_all add: unat_of_nat_u16)
  with Cons show ?case
    by (simp add: wide_def string_of_runes_def bytes_of_runes_def bytes_string_def is_high_def is_low_def
        encode_rune_def)
qed

text \<open>What the backend prints for an event the agent sends, as the fields read back from the JSON.\<close>

definition event_json :: "ACEvent \<Rightarrow> (string \<times> jval) list" where
  "event_json ev =
     [(''CallerPID'', JInt (sint (CallerPID ev))),
      (''CommandLine'', JStr (string_of_runes (utf16_decode (takeWhile (\<lambda>c. c \<noteq> 0) (CommandLine ev))))),
      (''EventType'', JStr (string_of_runes (utf16_decode (takeWhile (\<lambda>c. c \<noteq> 0) (EventType ev))))),
      (''ImageBase'', JInt (uint (ImageBase ev))),
      (''ImageFileName'',
       JStr (string_of_runes (utf16_decode (map ucast (takeWhile (\<lambda>v. v \<noteq> 0) (ImageFileName ev)))))),
      (''ImageSize'', JInt (uint (ImageSize ev))),
      (''IsCreate'', JInt (sint (IsCreate ev))),
      (''Src'', JInt (sint (Src ev))),
      (''TargetPID'', JInt (sint (TargetPID ev))),
      (''ThreadID'', JInt (sint (ThreadID ev)))]"

definition prints_as :: "padding \<Rightarrow> ACEvent \<Rightarrow> (string \<times> jval) list \<Rightarrow> bool" where
  "prints_as pad ev js \<longleftrightarrow>
     (\<exists>ev'. frame_event (mt (event_frame pad ev)) (the (data (event_frame pad ev))) = Some ev' \<and>
        snd (ToJSON_be ev') = None \<and> read_object (fst (ToJSON_be ev')) = Some js)"

lemma prints_as_event_json:
  assumes "wf_ACEvent ev"
  shows "prints_as pad ev (event_json ev)"
proof -
  have "frame_event (mt (event_frame pad ev)) (the (data (event_frame pad ev))) = Some (to_backend ev)"
    using assms by (simp add: frame_event_def)
  then show ?thesis
    by (simp add: prints_as_def event_json_def read_ToJSON_be event_fields_be_sorted to_backend_def
        utf16ToString_be_def int32ToString_be_def utf16BufToString_def int32_units_eq)
qed

lemma Loop_one: "length hdr = 16 \<Longrightarrow> wf_ACEvent ev \<Longrightarrow> Loop [(S_OK, hdr @ evToBytes pad ev)] = [ev]"
  using Loop_iter_full [of hdr "evToBytes pad ev"] by (simp add: Loop_def)

lemma takeWhile_text: "0 \<notin> set us \<Longrightarrow> takeWhile (\<lambda>c. c \<noteq> 0) (us @ replicate n 0) = us"
  by (rule takeWhile_replicate_pad) auto

lemma not_0_take: "0 \<notin> set xs \<Longrightarrow> 0 \<notin> set (take n xs)"
  using in_set_takeD by fastforce

text \<open>The event of a process with a terminated name and command line, as the JSON shows it.\<close>

lemma process_event_json:
  assumes "CreateProcess_event k pid (Some ci) = Some ev"
    and "ci_ImageFileName ci = Some n" and "us_Buffer n = Some (name @ 0 # r)" and "0 \<notin> set name"
    and "ci_CommandLine ci = Some c" and "us_Buffer c = Some (cmd @ 0 # r')" and "0 \<notin> set cmd"
  shows "event_json ev =
     [(''CallerPID'', JInt (sint (ucast (PsGetCurrentProcessId k) :: i32))),
      (''CommandLine'', JStr (string_of_runes (utf16_decode (take 1023 cmd)))),
      (''EventType'', JStr ''CreateProcess''),
      (''ImageBase'', JInt 0xffffffffffff),
      (''ImageFileName'', JStr (string_of_runes (utf16_decode (evens (take 259 name))))),
      (''ImageSize'', JInt 0xffff),
      (''IsCreate'', JInt 1),
      (''Src'', JInt 0),
      (''TargetPID'', JInt (sint (ucast pid :: i32))),
      (''ThreadID'', JInt (sint (ucast (PsGetCurrentThreadId k) :: i32)))]"
proof -
  have ev: "ev = \<lparr>Src = 0, EventType = wide ''CreateProcess'' @ replicate 247 0,
    CallerPID = ucast (PsGetCurrentProcessId k), TargetPID = ucast pid,
    ThreadID = ucast (PsGetCurrentThreadId k),
    ImageFileName = int_view (take 259 name @ replicate (520 - length (take 259 name)) 0),
    CommandLine = take 1023 cmd @ replicate (1024 - length (take 1023 cmd)) 0,
    IsCreate = 1, ImageBase = 0xffffffffffff, ImageSize = 0xffff\<rparr>"
    using CreateProcess_event_named [OF assms(2-7), of k pid] assms(1) by simp
  have "int32_units (ImageFileName ev) = evens (take 259 name)"
    using int32_units_view [of "take 259 name" "520 - length (take 259 name)"] not_0_take [OF assms(4)]
    by (simp add: ev)
  moreover have "takeWhile (\<lambda>c. c \<noteq> 0) (CommandLine ev) = take 1023 cmd"
    using takeWhile_text [OF not_0_take [OF assms(7), of 1023]] by (simp add: ev)
  moreover have "takeWhile (\<lambda>c. c \<noteq> 0) (EventType ev) = wide ''CreateProcess''"
    using takeWhile_text [of "wide ''CreateProcess''" 247] by (simp add: ev wide_def)
  moreover have "string_of_runes (utf16_decode (wide ''CreateProcess'')) = ''CreateProcess''"
    by (rule ascii_text) simp
  ultimately show ?thesis by (simp add: event_json_def int32_units_eq) (simp add: ev)
qed

text \<open>C2. From the kernel to the backend: when a process is created whose image name and command
  line are terminated texts, the driver sends one message to the agent's port; the agent's loop makes
  one event of it; and the frame of that event makes the backend print the process ids, the
  first 1023 characters of the command line, and of the first 259 characters of the image name every
  second one: the driver packs them in pairs into the integers the other programs read as one
  character each.\<close>

theorem driver_process_event_printed:
  assumes "ci_ImageFileName ci = Some n" and "us_Buffer n = Some (name @ 0 # r)" and "0 \<notin> set name"
    and "ci_CommandLine ci = Some c" and "us_Buffer c = Some (cmd @ 0 # r')" and "0 \<notin> set cmd"
    and "length hdr = 16"
  shows "\<exists>m ev. CreateProcessNotifyRoutineEx k d pid (Some ci) = Some [m] \<and>
    msg_port m = client_port d \<and> Loop [(S_OK, hdr @ msg_data m)] = [ev] \<and>
    prints_as pad ev
     [(''CallerPID'', JInt (sint (ucast (PsGetCurrentProcessId k) :: i32))),
      (''CommandLine'', JStr (string_of_runes (utf16_decode (take 1023 cmd)))),
      (''EventType'', JStr ''CreateProcess''),
      (''ImageBase'', JInt 0xffffffffffff),
      (''ImageFileName'', JStr (string_of_runes (utf16_decode (evens (take 259 name))))),
      (''ImageSize'', JInt 0xffff),
      (''IsCreate'', JInt 1),
      (''Src'', JInt 0),
      (''TargetPID'', JInt (sint (ucast pid :: i32))),
      (''ThreadID'', JInt (sint (ucast (PsGetCurrentThreadId k) :: i32)))]"
proof -
  obtain ev where e: "CreateProcess_event k pid (Some ci) = Some ev"
    using CreateProcess_event_named [OF assms(1-6), of k pid] by blast
  then have wf: "wf_ACEvent ev" by (rule CreateProcess_event_wf)
  have "CreateProcessNotifyRoutineEx k d pid (Some ci) = Some [event_message k d ev]"
    by (simp add: CreateProcessNotifyRoutineEx_def e send_event_eq wf)
  moreover have "Loop [(S_OK, hdr @ msg_data (event_message k d ev))] = [ev]"
    using Loop_one [OF assms(7) wf] by (simp add: event_message_def)
  moreover have "msg_port (event_message k d ev) = client_port d"
    by (simp add: event_message_def)
  ultimately show ?thesis
    using prints_as_event_json [OF wf, of pad, unfolded process_event_json [OF e assms(1-6)]] by blast
qed

theorem driver_process_event_printed_witness:
  "\<exists>m ev. CreateProcessNotifyRoutineEx (sample_kernel 8) initial_driver 40
      (Some \<lparr>ci_ImageFileName = Some \<lparr>us_Length = 18, us_Buffer = Some (wide ''cheat.exe'' @ [0, 7])\<rparr>,
         ci_CommandLine = Some \<lparr>us_Length = 4, us_Buffer = Some (wide ''-x'' @ [0])\<rparr>\<rparr>) = Some [m] \<and>
    Loop [(S_OK, replicate 16 1 @ msg_data m)] = [ev] \<and>
    (\<exists>js. prints_as (0, 0) ev js \<and> (''ImageFileName'', JStr ''cetee'') \<in> set js \<and>
       (''CommandLine'', JStr ''-x'') \<in> set js)"
proof -
  let ?n = "\<lparr>us_Length = 18, us_Buffer = Some (wide ''cheat.exe'' @ [0, 7])\<rparr>"
  let ?c = "\<lparr>us_Length = 4, us_Buffer = Some (wide ''-x'' @ [0])\<rparr>"
  let ?ci = "\<lparr>ci_ImageFileName = Some ?n, ci_CommandLine = Some ?c\<rparr>"
  have z: "0 \<notin> set (wide ''cheat.exe'')" "0 \<notin> set (wide ''-x'')" by (simp_all add: wide_def)
  have t: "string_of_runes (utf16_decode (wide ''cetee'')) = ''cetee''"
    "string_of_runes (utf16_decode (wide ''-x'')) = ''-x''" by (rule ascii_text, simp)+
  have e: "evens (take 259 (wide ''cheat.exe'')) = wide ''cetee''" "take 1023 (wide ''-x'') = wide ''-x''"
    by (simp_all add: wide_def)
  obtain m ev js where "CreateProcessNotifyRoutineEx (sample_kernel 8) initial_driver 40 (Some ?ci) = Some [m]"
      "Loop [(S_OK, replicate 16 1 @ msg_data m)] = [ev]" "prints_as (0, 0) ev js"
      "(''ImageFileName'', JStr ''cetee'') \<in> set js" "(''CommandLine'', JStr ''-x'') \<in> set js"
    using driver_process_event_printed [of ?ci ?n "wide ''cheat.exe''" "[7]" ?c "wide ''-x''" "[]"
        "replicate 16 1" "sample_kernel 8" initial_driver 40 "(0, 0)", unfolded e t] z by fastforce
  then show ?thesis by blast
qed

lemma framed_events_one:
  assumes "wf_ACEvent ev"
  shows "framed_events [evToBytes pad ev] = [ev]"
proof -
  have l: "length (evToBytes pad ev) = ACEvent_size" using assms by (rule length_evToBytes)
  then have "evToBytes pad ev \<noteq> []" by fastforce
  with l assms show ?thesis by (simp add: framed_events_def)
qed

lemma hook_event_json:
  "event_json (hook_event env args h tid') =
     [(''CallerPID'', JInt (sint (GetCurrentProcessId env))),
      (''CommandLine'', JStr ''''),
      (''EventType'', JStr ''CreateRemoteThreadEx''),
      (''ImageBase'', JInt (uint (start args))),
      (''ImageFileName'', JStr ''''),
      (''ImageSize'', JInt 0),
      (''IsCreate'', JInt (if h = 0 then 0 else 1)),
      (''Src'', JInt 2),
      (''TargetPID'', JInt (sint (GetProcessId env (hProcess args)))),
      (''ThreadID'', JInt (sint (ThreadID (hook_event env args h tid'))))]"
proof -
  have t: "string_of_runes (utf16_decode (wide ''CreateRemoteThreadEx'')) = ''CreateRemoteThreadEx''"
    by (rule ascii_text) simp
  have e: "string_of_runes [] = []" by (simp add: string_of_runes_def bytes_of_runes_def bytes_string_def)
  have "takeWhile (\<lambda>c. c \<noteq> 0) (EventType (hook_event env args h tid')) = wide ''CreateRemoteThreadEx''"
    using takeWhile_text [of "wide ''CreateRemoteThreadEx''" 240] by (simp add: hook_event_text wide_def)
  then show ?thesis
    by (simp add: event_json_def t) (simp add: hook_event_def zero_ACEvent_def DLL_def e)
qed

text \<open>C9. From a hooked process to the backend: when the DLL could open the agent's pipe, the
  reader of that pipe instance gets exactly one event from the hooked call, and the frame of that event
  makes the backend print who created a thread where, the thread's start address, its id, and
  whether the real function succeeded.\<close>

theorem hook_event_printed:
  assumes "HookCreateRemoteThreadEx env (Some real) args = (h, tid', calls)"
    and "create_file env PIPE_NAME \<noteq> InvalidHandle"
    and "message_mode_pipe ReadFile msgs" and "msgs p = [bs. WriteFile _ bs \<leftarrow> calls]"
    and "read_fuel (msgs p) \<le> fuel"
  shows "\<exists>ev p'. readLoop_run fuel ReadFile p = Some ([ev], p') \<and>
    prints_as pad ev
     [(''CallerPID'', JInt (sint (GetCurrentProcessId env))),
      (''CommandLine'', JStr ''''),
      (''EventType'', JStr ''CreateRemoteThreadEx''),
      (''ImageBase'', JInt (uint (start args))),
      (''ImageFileName'', JStr ''''),
      (''ImageSize'', JInt 0),
      (''IsCreate'', JInt (if h = 0 then 0 else 1)),
      (''Src'', JInt 2),
      (''TargetPID'', JInt (sint (GetProcessId env (hProcess args)))),
      (''ThreadID'', JInt (sint (ThreadID (hook_event env args h tid'))))]"
proof -
  let ?ev = "hook_event env args h tid'"
  have "calls = snd (send_dll_event env ?ev)"
    using assms(1) by (simp add: HookCreateRemoteThreadEx_def split: prod.splits)
  then have "msgs p = [evToBytes (stack_holes env) ?ev]"
    using assms(2,4) by (simp add: send_dll_event_calls [OF hook_event_wf] Let_def)
  moreover have "framed_events [evToBytes (stack_holes env) ?ev] = [?ev]"
    by (rule framed_events_one [OF hook_event_wf])
  ultimately have "\<exists>p'. readLoop_run fuel ReadFile p = Some ([?ev], p')"
    using readLoop_delivers [OF assms(3,5), of "replicate ACEvent_size 0"] unfolding readLoop_run_def by metis
  moreover have "event_json ?ev =
     [(''CallerPID'', JInt (sint (GetCurrentProcessId env))),
      (''CommandLine'', JStr ''''),
      (''EventType'', JStr ''CreateRemoteThreadEx''),
      (''ImageBase'', JInt (uint (start args))),
      (''ImageFileName'', JStr ''''),
      (''ImageSize'', JInt 0),
      (''IsCreate'', JInt (if h = 0 then 0 else 1)),
      (''Src'', JInt 2),
      (''TargetPID'', JInt (sint (GetProcessId env (hProcess args)))),
      (''ThreadID'', JInt (sint (ThreadID ?ev)))]"
    by (rule hook_event_json)
  ultimately show ?thesis
    using prints_as_event_json [OF hook_event_wf, of pad env args h tid'] by metis
qed

theorem hook_event_printed_witness:
  "\<exists>ev p'. readLoop_run (read_fuel [evToBytes (0, 0) (hook_event sample_process sample_args 20 None)])
      list_pipe_read [evToBytes (0, 0) (hook_event sample_process sample_args 20 None)] = Some ([ev], p') \<and>
    (\<exists>js. prints_as (0, 0) ev js \<and> (''ThreadID'', JInt 77) \<in> set js \<and> (''TargetPID'', JInt 1234) \<in> set js)"
proof -
  let ?ms = "[evToBytes (0, 0) (hook_event sample_process sample_args 20 None)]"
  obtain calls where c: "HookCreateRemoteThreadEx sample_process (Some (\<lambda>a. (20, tid a))) sample_args = (20, None, calls)"
      "calls = snd (send_dll_event sample_process (hook_event sample_process sample_args 20 None))"
    by (simp add: HookCreateRemoteThreadEx_def sample_args_def split: prod.splits)
  have "?ms = [bs. WriteFile _ bs \<leftarrow> calls]"
    by (simp add: c(2) send_dll_event_calls [OF hook_event_wf] sample_process_def InvalidHandle_def)
  from hook_event_printed [OF c(1) _ list_pipe_is_message_mode this order_refl, of "(0, 0)"]
  show ?thesis by (fastforce simp: sample_process_def InvalidHandle_def hook_event_def sample_args_def)
qed

text \<open>C10. For messages of the full size, as the driver sends them, mixed with
  failing calls: the backend decodes from what the agent's loop puts into the event channel and
  the pump sends exactly what it would decode from the driver's bytes themselves, one event per
  successful call, in order. The agent is transparent.\<close>

theorem driver_events_relayed:
  assumes "list_all full_message ms"
  shows "map (\<lambda>ev. frame_event BinaryMessage (evToBytes (pad ev) ev)) (Loop ms) =
    map (\<lambda>m. Some (event_of_message (drop 16 (snd m)))) (filter (\<lambda>m. fst m = S_OK) ms)"
proof -
  have "wf_ACEvent (ACEvent_of_bytes (drop 16 (snd m)))" if "m \<in> set ms" "fst m = S_OK" for m
    using assms that by (auto simp: list_all_iff full_message_def)
  then show ?thesis
    by (auto simp: Loop_def Loop_from_full [OF assms] frame_event_def event_of_message_eq)
qed

theorem driver_events_relayed_witness:
  "frame_event BinaryMessage (evToBytes (1, 1) (hd (Loop [(5, []), (S_OK, replicate 3664 3)]))) =
     Some (event_of_message (replicate 3648 3))"
  using driver_events_relayed [of "[(5, []), (S_OK, replicate 3664 3)]" "\<lambda>_. (1, 1)"]
  by (cases "Loop [(5, []), (S_OK, replicate 3664 3)]") (simp_all add: full_message_def S_OK_def)



section \<open>From the backend to the agent\<close>

text \<open>C29. The command the backend's main program queues for broadcast is the
  one the agent's callback answers with a scan of the protected process; every other message has
  no effect there.\<close>

theorem scan_command_understood:
  assumes "main_command s = Some s'"
  shows "\<exists>cmd. ch_buf (SendText s') = ch_buf (SendText s) @ [cmd] \<and>
    (\<forall>b. message_string b = cmd \<longrightarrow>
       main_OnMessage fuel env a b = executeDLLScan fuel env (ToProtectPID a)) \<and>
    (\<forall>b. message_string b \<noteq> cmd \<longrightarrow> main_OnMessage fuel env a b = Some ([], []))"
proof -
  obtain ch where "chan_send (SendText s) ''scanDLL'' = Sent ch" "s' = s\<lparr>SendText := ch\<rparr>"
    using assms by (auto simp: main_command_def split: sent.splits)
  then show ?thesis
    by (intro exI [of _ "''scanDLL''"]) (auto simp: loop_simps main_OnMessage_def)
qed

theorem scan_command_understood_witness:
  "\<exists>s' cmd. ch_buf (SendText (s' :: HydraWSServer)) = [cmd] \<and>
    (\<forall>b. message_string b = cmd \<longrightarrow> main_OnMessage 2 sample_scan_env
       \<lparr>ToProtectPID = 42, toInjectDLL = ''x.dll'', pipe = defaultPipe, receiver = NewReceiver port,
        client = NewHydraWS ''ws://h'' EventChannel\<rparr> b = executeDLLScan 2 sample_scan_env 42)"
proof -
  let ?a = "\<lparr>ToProtectPID = 42, toInjectDLL = ''x.dll'', pipe = defaultPipe, receiver = NewReceiver port,
        client = NewHydraWS ''ws://h'' EventChannel\<rparr>"
  let ?s' = "main_server\<lparr>SendText := (SendText main_server)\<lparr>ch_buf := [''scanDLL'']\<rparr>\<rparr>"
  have "main_command main_server = Some ?s'"
    by (simp add: main_command_def main_server_def NewHydraWSServer_def chan_send_def make_chan_def)
  from scan_command_understood [OF this, of 2 sample_scan_env ?a] show ?thesis
    by (intro exI [of _ ?s']) (auto simp: main_server_def NewHydraWSServer_def)
qed

end
